theory Spec2Isabelle
  imports Main "HOL-Library.Word"
begin

section \<open>Pointers, strategies and the event log\<close>

text \<open>
  A shallow embedding of \<^verbatim>\<open>smart_pointers.hpp\<close>: the reference counters
  \<^verbatim>\<open>SharedCount\<close> and \<^verbatim>\<open>SharedWeakCount\<close>, the two control blocks
  \<^verbatim>\<open>SharedPtrPointer\<close> and \<^verbatim>\<open>SharedPtrEmplacer\<close>, the handles
  \<^verbatim>\<open>SharedPtr\<close> and \<^verbatim>\<open>WeakPtr\<close>, and the factories
  \<^verbatim>\<open>AllocateShared\<close> and \<^verbatim>\<open>MakeShared\<close>.

  Control blocks live in an explicit store. An address names one allocation: the store
  hands out a new address for every allocation and never reuses one, and it keeps the last
  contents of a block after its deallocation, as the memory does. The counters are
  \<^verbatim>\<open>size_t\<close>, here 64-bit words, so an increment wraps around.

  Everything the library does to the outside world is appended to a log: allocation and
  deallocation, each call of a destruction strategy, the destruction of the strategy
  values, and each entry into one of the two virtual cleanup hooks.
\<close>

type_synonym addr = nat
type_synonym size_t = "64 word"

text \<open>
  A pointer to a managed object is either a pointer the caller passed in, or the address
  of the element stored inside the combined control block at the given address
  (\<^verbatim>\<open>get_elem()\<close>). The null pointer is \<open>None\<close>.
\<close>

datatype obj_ptr = External nat | Inline addr

datatype deleter = DefaultDeleter | CustomDeleter nat

datatype allocator = StdAllocator | CustomAllocator nat

datatype event =
    OperatorNew addr
  | OperatorDelete addr
  | Allocate allocator addr
  | Deallocate allocator addr
  | InvokeDeleter deleter "obj_ptr option"
  | DestroyDeleter addr
  | DestroyAllocator addr
  | DestroyElem addr
  | ZeroShared addr
  | ZeroSharedAndWeak addr

text \<open>
  The two control blocks differ in what they hold beside the counters:
  \<^verbatim>\<open>SharedPtrPointer\<close> holds \<^verbatim>\<open>value_\<close>, \<^verbatim>\<open>deleter_\<close> and
  \<^verbatim>\<open>allocator_\<close>; \<^verbatim>\<open>SharedPtrEmplacer\<close> holds the allocator and the element
  in \<^verbatim>\<open>storage_\<close> (the element is \<open>None\<close> while no object lives there).
\<close>

datatype 'v payload =
    PointerBlock "obj_ptr option" deleter allocator
  | EmplacerBlock allocator "'v option"

record 'v control_block =
  shared_owners :: size_t
  shared_weak_owners :: size_t
  payload :: "'v payload"

record 'v memory =
  heap :: "addr \<rightharpoonup> 'v control_block"
  next_addr :: addr
  trace :: "event list"

definition log :: "event list \<Rightarrow> 'v memory \<Rightarrow> 'v memory" where
  "log es m = m\<lparr>trace := trace m @ es\<rparr>"

text \<open>
  A member function called through a control-block pointer reads and writes the block at
  that address. A pointer to no block does not occur in a program that only uses the
  public interface; there the model writes nothing.
\<close>

definition update_block ::
  "addr \<Rightarrow> ('v control_block \<Rightarrow> 'v control_block) \<Rightarrow> 'v memory \<Rightarrow> 'v memory" where
  "update_block a f m =
     (case heap m a of
        None \<Rightarrow> m
      | Some b \<Rightarrow> m\<lparr>heap := (heap m)(a \<mapsto> f b)\<rparr>)"

section \<open>SharedCount and SharedWeakCount\<close>

definition use_count_cb :: "addr \<Rightarrow> 'v memory \<Rightarrow> size_t" where
  "use_count_cb a m = (case heap m a of None \<Rightarrow> 0 | Some b \<Rightarrow> shared_owners b)"

definition add_shared :: "addr \<Rightarrow> 'v memory \<Rightarrow> 'v memory" where
  "add_shared a = update_block a (\<lambda>b. b\<lparr>shared_owners := shared_owners b + 1\<rparr>)"

definition add_weak :: "addr \<Rightarrow> 'v memory \<Rightarrow> 'v memory" where
  "add_weak a = update_block a (\<lambda>b. b\<lparr>shared_weak_owners := shared_weak_owners b + 1\<rparr>)"

definition decrement_weak :: "addr \<Rightarrow> 'v memory \<Rightarrow> 'v memory" where
  "decrement_weak a =
     update_block a (\<lambda>b. if shared_weak_owners b > 0
                          then b\<lparr>shared_weak_owners := shared_weak_owners b - 1\<rparr> else b)"

definition decrement_shared :: "addr \<Rightarrow> 'v memory \<Rightarrow> 'v memory" where
  "decrement_shared a =
     update_block a (\<lambda>b. if shared_owners b > 0
                          then b\<lparr>shared_owners := shared_owners b - 1\<rparr> else b)"

section \<open>The cleanup hooks of the two control blocks\<close>

text \<open>
  \<^verbatim>\<open>zero_shared\<close>: \<^verbatim>\<open>SharedPtrPointer\<close> calls the deleter on the stored pointer
  and destroys the deleter; \<^verbatim>\<open>SharedPtrEmplacer\<close> destroys the element in place.
  \<^verbatim>\<open>zero_shared_and_weak\<close>: both destroy the stored allocator and deallocate the
  block through a rebound copy of it.
\<close>

definition zero_shared :: "addr \<Rightarrow> 'v memory \<Rightarrow> 'v memory" where
  "zero_shared a m =
     (case heap m a of
        None \<Rightarrow> m
      | Some b \<Rightarrow>
          (case payload b of
             PointerBlock p d al \<Rightarrow> log [ZeroShared a, InvokeDeleter d p, DestroyDeleter a] m
           | EmplacerBlock al v \<Rightarrow>
               log [ZeroShared a, DestroyElem a]
                 (update_block a (\<lambda>b. b\<lparr>payload := EmplacerBlock al None\<rparr>) m)))"

definition zero_shared_and_weak :: "addr \<Rightarrow> 'v memory \<Rightarrow> 'v memory" where
  "zero_shared_and_weak a m =
     (case heap m a of
        None \<Rightarrow> m
      | Some b \<Rightarrow>
          (case payload b of
             PointerBlock p d al \<Rightarrow>
               log [ZeroSharedAndWeak a, DestroyAllocator a, Deallocate al a] m
           | EmplacerBlock al v \<Rightarrow>
               log [ZeroSharedAndWeak a, DestroyAllocator a, Deallocate al a] m))"

definition release_shared :: "addr \<Rightarrow> 'v memory \<Rightarrow> 'v memory" where
  "release_shared a m = (if use_count_cb a m = 0 then zero_shared a m else m)"

definition release_weak :: "addr \<Rightarrow> 'v memory \<Rightarrow> 'v memory" where
  "release_weak a m =
     (case heap m a of
        None \<Rightarrow> m
      | Some b \<Rightarrow> if shared_weak_owners b = 0 then zero_shared_and_weak a m else m)"

section \<open>SharedPtr\<close>

record handle =
  element_ptr :: "obj_ptr option"
  control_ptr :: "addr option"

type_synonym SharedPtr = handle
type_synonym WeakPtr = handle

datatype exn = BadAlloc | ConstructorThrew

text \<open>
  What the environment decides during a construction: whether the allocation of the
  control block succeeds, and whether the construction of the block in the allocated
  memory (which copies the caller's deleter and allocator) succeeds.
\<close>

datatype outcome = Succeeds | AllocFails | ConstructFails

definition SharedPtr_default :: SharedPtr where
  "SharedPtr_default = \<lparr>element_ptr = None, control_ptr = None\<rparr>"

definition SharedPtr_nullptr :: SharedPtr where
  "SharedPtr_nullptr = \<lparr>element_ptr = None, control_ptr = None\<rparr>"

definition get :: "SharedPtr \<Rightarrow> obj_ptr option" where
  "get h = element_ptr h"

definition use_count :: "SharedPtr \<Rightarrow> 'v memory \<Rightarrow> size_t" where
  "use_count h m = (case control_ptr h of None \<Rightarrow> 0 | Some a \<Rightarrow> use_count_cb a m)"

text \<open>
  A control block is born with both counters 0 (\<^verbatim>\<open>SharedWeakCount(0)\<close>) at the next
  address of the store.
\<close>

definition place_block :: "addr \<Rightarrow> 'v payload \<Rightarrow> 'v memory \<Rightarrow> 'v memory" where
  "place_block a p m =
     m\<lparr>heap := (heap m)(a \<mapsto> \<lparr>shared_owners = 0, shared_weak_owners = 0, payload = p\<rparr>)\<rparr>"

definition take_addr :: "'v memory \<Rightarrow> 'v memory" where
  "take_addr m = m\<lparr>next_addr := Suc (next_addr m)\<rparr>"

text \<open>
  \<^verbatim>\<open>SharedPtr(Y* ptr)\<close>: the block comes from a new-expression, with the default
  deleter and \<^verbatim>\<open>std::allocator\<close>; neither can throw when copied, so only the
  allocation can fail, and then the exception leaves the constructor as it is.
\<close>

definition SharedPtr_ptr ::
  "bool \<Rightarrow> obj_ptr option \<Rightarrow> 'v memory \<Rightarrow> (exn + SharedPtr) \<times> 'v memory" where
  "SharedPtr_ptr alloc_ok ptr m =
     (if alloc_ok then
        (let a = next_addr m;
             m1 = place_block a (PointerBlock ptr DefaultDeleter StdAllocator)
                    (log [OperatorNew a] (take_addr m))
         in (Inr \<lparr>element_ptr = ptr, control_ptr = Some a\<rparr>, add_shared a m1))
      else (Inl BadAlloc, m))"

text \<open>
  \<^verbatim>\<open>SharedPtr(Y* ptr, Deleter del)\<close>: the new-expression and \<^verbatim>\<open>add_shared\<close>
  stand in a try block whose handler calls \<^verbatim>\<open>del(ptr)\<close> and rethrows. When the
  block's constructor throws, the new-expression gives the memory back first.
\<close>

definition SharedPtr_ptr_del ::
  "outcome \<Rightarrow> obj_ptr option \<Rightarrow> deleter \<Rightarrow> 'v memory \<Rightarrow> (exn + SharedPtr) \<times> 'v memory" where
  "SharedPtr_ptr_del env ptr del m =
     (case env of
        Succeeds \<Rightarrow>
          (let a = next_addr m;
               m1 = place_block a (PointerBlock ptr del StdAllocator)
                      (log [OperatorNew a] (take_addr m))
           in (Inr \<lparr>element_ptr = ptr, control_ptr = Some a\<rparr>, add_shared a m1))
      | AllocFails \<Rightarrow> (Inl BadAlloc, log [InvokeDeleter del ptr] m)
      | ConstructFails \<Rightarrow>
          (let a = next_addr m
           in (Inl ConstructorThrew,
               log [InvokeDeleter del ptr]
                 (log [OperatorNew a, OperatorDelete a] (take_addr m)))))"

text \<open>
  \<^verbatim>\<open>SharedPtr(Y* ptr, Deleter del, Alloc alloc)\<close>: the allocation through the
  rebound allocator stands before the try block; the try block holds the construction of
  the block and \<^verbatim>\<open>add_shared\<close>, and its handler deallocates, calls
  \<^verbatim>\<open>del(ptr)\<close> and rethrows.
\<close>

definition SharedPtr_ptr_del_alloc ::
  "outcome \<Rightarrow> obj_ptr option \<Rightarrow> deleter \<Rightarrow> allocator \<Rightarrow> 'v memory
     \<Rightarrow> (exn + SharedPtr) \<times> 'v memory" where
  "SharedPtr_ptr_del_alloc env ptr del alloc m =
     (case env of
        AllocFails \<Rightarrow> (Inl BadAlloc, m)
      | Succeeds \<Rightarrow>
          (let a = next_addr m;
               m1 = place_block a (PointerBlock ptr del alloc)
                      (log [Allocate alloc a] (take_addr m))
           in (Inr \<lparr>element_ptr = ptr, control_ptr = Some a\<rparr>, add_shared a m1))
      | ConstructFails \<Rightarrow>
          (let a = next_addr m
           in (Inl ConstructorThrew,
               log [Deallocate alloc a, InvokeDeleter del ptr]
                 (log [Allocate alloc a] (take_addr m)))))"

text \<open>The copy constructor shares the block; the move constructor empties its source.\<close>

definition SharedPtr_copy :: "SharedPtr \<Rightarrow> 'v memory \<Rightarrow> SharedPtr \<times> 'v memory" where
  "SharedPtr_copy other m =
     (\<lparr>element_ptr = element_ptr other, control_ptr = control_ptr other\<rparr>,
      (case control_ptr other of None \<Rightarrow> m | Some a \<Rightarrow> add_shared a m))"

text \<open>The result is the new handle and the source as the constructor leaves it.\<close>

definition SharedPtr_move :: "SharedPtr \<Rightarrow> SharedPtr \<times> SharedPtr" where
  "SharedPtr_move other =
     (\<lparr>element_ptr = element_ptr other, control_ptr = control_ptr other\<rparr>,
      other\<lparr>element_ptr := None, control_ptr := None\<rparr>)"

definition SharedPtr_dtor :: "SharedPtr \<Rightarrow> 'v memory \<Rightarrow> SharedPtr \<times> 'v memory" where
  "SharedPtr_dtor h m =
     (h\<lparr>control_ptr := None\<rparr>,
      (case control_ptr h of
         None \<Rightarrow> m
       | Some a \<Rightarrow>
           (let m1 = decrement_shared a m;
                m2 = release_shared a m1
            in if use_count_cb a m2 = 0 then release_weak a m2 else m2)))"

text \<open>\<^verbatim>\<open>swap\<close> exchanges both fields; the result is (this, other) afterwards.\<close>

definition SharedPtr_swap :: "SharedPtr \<Rightarrow> SharedPtr \<Rightarrow> SharedPtr \<times> SharedPtr" where
  "SharedPtr_swap this other =
     (this\<lparr>element_ptr := element_ptr other, control_ptr := control_ptr other\<rparr>,
      other\<lparr>element_ptr := element_ptr this, control_ptr := control_ptr this\<rparr>)"

definition create_with_control_block ::
  "obj_ptr option \<Rightarrow> addr \<Rightarrow> 'v memory \<Rightarrow> SharedPtr \<times> 'v memory" where
  "create_with_control_block ptr block m =
     (\<lparr>element_ptr = ptr, control_ptr = Some block\<rparr>, add_shared block m)"

section \<open>The factories\<close>

text \<open>
  The constructor of \<^verbatim>\<open>SharedPtrEmplacer\<close> first builds \<^verbatim>\<open>storage_\<close>, which
  moves the allocator in, then constructs the element from the arguments. The element's
  constructor is a parameter: \<open>None\<close> says that it throws. Then \<^verbatim>\<open>storage_\<close>, a
  member that is already constructed, is destroyed as the exception leaves the
  constructor, and \<^verbatim>\<open>~Storage\<close> destroys the allocator; no block object exists.
\<close>

definition SharedPtrEmplacer_ctor ::
  "addr \<Rightarrow> allocator \<Rightarrow> ('args \<Rightarrow> 'v option) \<Rightarrow> 'args \<Rightarrow> 'v memory \<Rightarrow> (exn + unit) \<times> 'v memory"
  where
  "SharedPtrEmplacer_ctor a alloc ctor args m =
     (case ctor args of
        None \<Rightarrow> (Inl ConstructorThrew, log [DestroyAllocator a] m)
      | Some v \<Rightarrow> (Inr (), place_block a (EmplacerBlock alloc (Some v)) m))"

text \<open>
  \<^verbatim>\<open>AllocateShared\<close> allocates one block through the rebound allocator, constructs
  the control block there with a placement new-expression, and wraps it. Nothing in it
  catches an exception.
\<close>

definition AllocateShared ::
  "bool \<Rightarrow> ('args \<Rightarrow> 'v option) \<Rightarrow> allocator \<Rightarrow> 'args \<Rightarrow> 'v memory
     \<Rightarrow> (exn + SharedPtr) \<times> 'v memory" where
  "AllocateShared alloc_ok ctor alloc args m =
     (if alloc_ok then
        (let a = next_addr m;
             m1 = log [Allocate alloc a] (take_addr m)
         in (case SharedPtrEmplacer_ctor a alloc ctor args m1 of
               (Inl e, m2) \<Rightarrow> (Inl e, m2)
             | (Inr u, m2) \<Rightarrow>
                 (let (h, m3) = create_with_control_block (Some (Inline a)) a m2
                  in (Inr h, m3))))
      else (Inl BadAlloc, m))"

definition MakeShared ::
  "bool \<Rightarrow> ('args \<Rightarrow> 'v option) \<Rightarrow> 'args \<Rightarrow> 'v memory \<Rightarrow> (exn + SharedPtr) \<times> 'v memory" where
  "MakeShared alloc_ok ctor args m = AllocateShared alloc_ok ctor StdAllocator args m"


section \<open>WeakPtr\<close>

definition WeakPtr_default :: WeakPtr where
  "WeakPtr_default = \<lparr>element_ptr = None, control_ptr = None\<rparr>"

definition WeakPtr_copy :: "WeakPtr \<Rightarrow> 'v memory \<Rightarrow> WeakPtr \<times> 'v memory" where
  "WeakPtr_copy other m =
     (\<lparr>element_ptr = element_ptr other, control_ptr = control_ptr other\<rparr>,
      (case control_ptr other of None \<Rightarrow> m | Some a \<Rightarrow> add_weak a m))"

definition WeakPtr_move :: "WeakPtr \<Rightarrow> WeakPtr \<times> WeakPtr" where
  "WeakPtr_move other =
     (\<lparr>element_ptr = element_ptr other, control_ptr = control_ptr other\<rparr>,
      other\<lparr>element_ptr := None, control_ptr := None\<rparr>)"

definition WeakPtr_from_shared :: "SharedPtr \<Rightarrow> 'v memory \<Rightarrow> WeakPtr \<times> 'v memory" where
  "WeakPtr_from_shared other m =
     (\<lparr>element_ptr = element_ptr other, control_ptr = control_ptr other\<rparr>,
      (case control_ptr other of None \<Rightarrow> m | Some a \<Rightarrow> add_weak a m))"

definition WeakPtr_dtor :: "WeakPtr \<Rightarrow> 'v memory \<Rightarrow> WeakPtr \<times> 'v memory" where
  "WeakPtr_dtor h m =
     (h\<lparr>control_ptr := None\<rparr>,
      (case control_ptr h of
         None \<Rightarrow> m
       | Some a \<Rightarrow>
           (let m1 = decrement_weak a m
            in if use_count_cb a m1 = 0 then release_weak a m1 else m1)))"

definition WeakPtr_swap :: "WeakPtr \<Rightarrow> WeakPtr \<Rightarrow> WeakPtr \<times> WeakPtr" where
  "WeakPtr_swap this other =
     (this\<lparr>element_ptr := element_ptr other, control_ptr := control_ptr other\<rparr>,
      other\<lparr>element_ptr := element_ptr this, control_ptr := control_ptr this\<rparr>)"

definition expired :: "WeakPtr \<Rightarrow> 'v memory \<Rightarrow> bool" where
  "expired h m = (case control_ptr h of None \<Rightarrow> True | Some a \<Rightarrow> use_count_cb a m = 0)"

text \<open>
  \<^verbatim>\<open>lock\<close> builds an empty \<^verbatim>\<open>SharedPtr\<close>, copies the control-block pointer into
  it and, when that is not null, the element pointer, and returns it. It calls no member
  function of the control block.
\<close>

definition lock :: "WeakPtr \<Rightarrow> SharedPtr" where
  "lock h =
     (let smart_ptr = SharedPtr_default;
          smart_ptr = smart_ptr\<lparr>control_ptr := (case control_ptr h of None \<Rightarrow> None | Some a \<Rightarrow> Some a)\<rparr>
      in (case control_ptr smart_ptr of
            None \<Rightarrow> smart_ptr
          | Some a \<Rightarrow> smart_ptr\<lparr>element_ptr := element_ptr h\<rparr>))"

section \<open>Programs over handle variables\<close>

text \<open>
  A program holds its handles in variables. Every handle object that is ever constructed,
  a temporary included, gets a slot of its own; the slot holds \<open>None\<close> once the
  object's destructor has run. An operation that names a variable which is not alive is
  not a program the compiler accepts, and leaves the state as it is.
\<close>

record 'v world =
  mem :: "'v memory"
  shared_vars :: "SharedPtr option list"
  weak_vars :: "WeakPtr option list"

definition init :: "'v world" where
  "init = \<lparr>mem = \<lparr>heap = Map.empty, next_addr = 0, trace = []\<rparr>,
           shared_vars = [], weak_vars = []\<rparr>"

definition live_shared :: "'v world \<Rightarrow> nat \<Rightarrow> SharedPtr option" where
  "live_shared w i = (if i < length (shared_vars w) then shared_vars w ! i else None)"

definition live_weak :: "'v world \<Rightarrow> nat \<Rightarrow> WeakPtr option" where
  "live_weak w i = (if i < length (weak_vars w) then weak_vars w ! i else None)"

text \<open>A constructor that throws leaves no object behind.\<close>

definition construct_shared :: "(exn + SharedPtr) \<times> 'v memory \<Rightarrow> 'v world \<Rightarrow> 'v world" where
  "construct_shared r w =
     (case r of
        (Inl e, m) \<Rightarrow> w\<lparr>mem := m\<rparr>
      | (Inr h, m) \<Rightarrow> w\<lparr>mem := m, shared_vars := shared_vars w @ [Some h]\<rparr>)"

definition default_shared :: "'v world \<Rightarrow> 'v world" where
  "default_shared w = w\<lparr>shared_vars := shared_vars w @ [Some SharedPtr_default]\<rparr>"

definition copy_shared :: "nat \<Rightarrow> 'v world \<Rightarrow> 'v world" where
  "copy_shared i w =
     (case live_shared w i of
        None \<Rightarrow> w
      | Some h \<Rightarrow>
          (let (h', m) = SharedPtr_copy h (mem w)
           in w\<lparr>mem := m, shared_vars := shared_vars w @ [Some h']\<rparr>))"

definition move_shared :: "nat \<Rightarrow> 'v world \<Rightarrow> 'v world" where
  "move_shared i w =
     (case live_shared w i of
        None \<Rightarrow> w
      | Some h \<Rightarrow>
          (let (h', src) = SharedPtr_move h
           in w\<lparr>shared_vars := (shared_vars w)[i := Some src] @ [Some h']\<rparr>))"

definition destroy_shared :: "nat \<Rightarrow> 'v world \<Rightarrow> 'v world" where
  "destroy_shared i w =
     (case live_shared w i of
        None \<Rightarrow> w
      | Some h \<Rightarrow>
          (let (h', m) = SharedPtr_dtor h (mem w)
           in w\<lparr>mem := m, shared_vars := (shared_vars w)[i := None]\<rparr>))"

definition swap_shared :: "nat \<Rightarrow> nat \<Rightarrow> 'v world \<Rightarrow> 'v world" where
  "swap_shared i j w =
     (case live_shared w i of
        None \<Rightarrow> w
      | Some hi \<Rightarrow>
          (case live_shared w j of
             None \<Rightarrow> w
           | Some hj \<Rightarrow>
               (let (hi', hj') = SharedPtr_swap hi hj
                in w\<lparr>shared_vars := (shared_vars w)[i := Some hi', j := Some hj']\<rparr>)))"

text \<open>
  The assignments and \<^verbatim>\<open>reset\<close> construct a temporary, swap it with
  \<^verbatim>\<open>*this\<close>, and destroy it at the end of the full expression. The temporary's slot
  is the next free one.
\<close>

definition assign_shared :: "nat \<Rightarrow> nat \<Rightarrow> 'v world \<Rightarrow> 'v world" where
  "assign_shared this other w =
     (case live_shared w this of
        None \<Rightarrow> w
      | Some h \<Rightarrow>
          (case live_shared w other of
             None \<Rightarrow> w
           | Some h' \<Rightarrow>
               (let tmp = length (shared_vars w)
                in destroy_shared tmp (swap_shared tmp this (copy_shared other w)))))"

definition move_assign_shared :: "nat \<Rightarrow> nat \<Rightarrow> 'v world \<Rightarrow> 'v world" where
  "move_assign_shared this other w =
     (case live_shared w this of
        None \<Rightarrow> w
      | Some h \<Rightarrow>
          (case live_shared w other of
             None \<Rightarrow> w
           | Some h' \<Rightarrow>
               (let tmp = length (shared_vars w)
                in destroy_shared tmp (swap_shared tmp this (move_shared other w)))))"

definition reset_shared :: "nat \<Rightarrow> 'v world \<Rightarrow> 'v world" where
  "reset_shared this w =
     (case live_shared w this of
        None \<Rightarrow> w
      | Some h \<Rightarrow>
          (let tmp = length (shared_vars w)
           in destroy_shared tmp (swap_shared tmp this (default_shared w))))"

definition default_weak :: "'v world \<Rightarrow> 'v world" where
  "default_weak w = w\<lparr>weak_vars := weak_vars w @ [Some WeakPtr_default]\<rparr>"

definition copy_weak :: "nat \<Rightarrow> 'v world \<Rightarrow> 'v world" where
  "copy_weak i w =
     (case live_weak w i of
        None \<Rightarrow> w
      | Some h \<Rightarrow>
          (let (h', m) = WeakPtr_copy h (mem w)
           in w\<lparr>mem := m, weak_vars := weak_vars w @ [Some h']\<rparr>))"

definition move_weak :: "nat \<Rightarrow> 'v world \<Rightarrow> 'v world" where
  "move_weak i w =
     (case live_weak w i of
        None \<Rightarrow> w
      | Some h \<Rightarrow>
          (let (h', src) = WeakPtr_move h
           in w\<lparr>weak_vars := (weak_vars w)[i := Some src] @ [Some h']\<rparr>))"

definition weak_from_shared :: "nat \<Rightarrow> 'v world \<Rightarrow> 'v world" where
  "weak_from_shared i w =
     (case live_shared w i of
        None \<Rightarrow> w
      | Some h \<Rightarrow>
          (let (h', m) = WeakPtr_from_shared h (mem w)
           in w\<lparr>mem := m, weak_vars := weak_vars w @ [Some h']\<rparr>))"

definition destroy_weak :: "nat \<Rightarrow> 'v world \<Rightarrow> 'v world" where
  "destroy_weak i w =
     (case live_weak w i of
        None \<Rightarrow> w
      | Some h \<Rightarrow>
          (let (h', m) = WeakPtr_dtor h (mem w)
           in w\<lparr>mem := m, weak_vars := (weak_vars w)[i := None]\<rparr>))"

definition swap_weak :: "nat \<Rightarrow> nat \<Rightarrow> 'v world \<Rightarrow> 'v world" where
  "swap_weak i j w =
     (case live_weak w i of
        None \<Rightarrow> w
      | Some hi \<Rightarrow>
          (case live_weak w j of
             None \<Rightarrow> w
           | Some hj \<Rightarrow>
               (let (hi', hj') = WeakPtr_swap hi hj
                in w\<lparr>weak_vars := (weak_vars w)[i := Some hi', j := Some hj']\<rparr>)))"

definition assign_weak :: "nat \<Rightarrow> nat \<Rightarrow> 'v world \<Rightarrow> 'v world" where
  "assign_weak this other w =
     (case live_weak w this of
        None \<Rightarrow> w
      | Some h \<Rightarrow>
          (case live_weak w other of
             None \<Rightarrow> w
           | Some h' \<Rightarrow>
               (let tmp = length (weak_vars w)
                in destroy_weak tmp (swap_weak tmp this (copy_weak other w)))))"

definition move_assign_weak :: "nat \<Rightarrow> nat \<Rightarrow> 'v world \<Rightarrow> 'v world" where
  "move_assign_weak this other w =
     (case live_weak w this of
        None \<Rightarrow> w
      | Some h \<Rightarrow>
          (case live_weak w other of
             None \<Rightarrow> w
           | Some h' \<Rightarrow>
               (let tmp = length (weak_vars w)
                in destroy_weak tmp (swap_weak tmp this (move_weak other w)))))"

definition lock_weak :: "nat \<Rightarrow> 'v world \<Rightarrow> 'v world" where
  "lock_weak i w =
     (case live_weak w i of
        None \<Rightarrow> w
      | Some h \<Rightarrow> w\<lparr>shared_vars := shared_vars w @ [Some (lock h)]\<rparr>)"

text \<open>
  The operations of a program. A factory call carries what the element's constructor
  gives on the call's arguments.
\<close>

datatype 'v operation =
    NewShared bool "obj_ptr option"
  | NewSharedDel outcome "obj_ptr option" deleter
  | NewSharedDelAlloc outcome "obj_ptr option" deleter allocator
  | MakeSharedOp bool "'v option"
  | AllocateSharedOp bool allocator "'v option"
  | DefaultShared
  | CopyShared nat
  | MoveShared nat
  | DestroyShared nat
  | AssignShared nat nat
  | MoveAssignShared nat nat
  | ResetShared nat
  | DefaultWeak
  | CopyWeak nat
  | MoveWeak nat
  | WeakFromShared nat
  | DestroyWeak nat
  | AssignWeak nat nat
  | MoveAssignWeak nat nat
  | LockWeak nat

fun step :: "'v operation \<Rightarrow> 'v world \<Rightarrow> 'v world" where
  "step (NewShared ok p) w = construct_shared (SharedPtr_ptr ok p (mem w)) w"
| "step (NewSharedDel env p d) w = construct_shared (SharedPtr_ptr_del env p d (mem w)) w"
| "step (NewSharedDelAlloc env p d al) w =
     construct_shared (SharedPtr_ptr_del_alloc env p d al (mem w)) w"
| "step (MakeSharedOp ok r) w = construct_shared (MakeShared ok (\<lambda>u. r) () (mem w)) w"
| "step (AllocateSharedOp ok al r) w =
     construct_shared (AllocateShared ok (\<lambda>u. r) al () (mem w)) w"
| "step DefaultShared w = default_shared w"
| "step (CopyShared i) w = copy_shared i w"
| "step (MoveShared i) w = move_shared i w"
| "step (DestroyShared i) w = destroy_shared i w"
| "step (AssignShared i j) w = assign_shared i j w"
| "step (MoveAssignShared i j) w = move_assign_shared i j w"
| "step (ResetShared i) w = reset_shared i w"
| "step DefaultWeak w = default_weak w"
| "step (CopyWeak i) w = copy_weak i w"
| "step (MoveWeak i) w = move_weak i w"
| "step (WeakFromShared i) w = weak_from_shared i w"
| "step (DestroyWeak i) w = destroy_weak i w"
| "step (AssignWeak i j) w = assign_weak i j w"
| "step (MoveAssignWeak i j) w = move_assign_weak i j w"
| "step (LockWeak i) w = lock_weak i w"

fun run :: "'v operation list \<Rightarrow> 'v world \<Rightarrow> 'v world" where
  "run [] w = w"
| "run (x # xs) w = run xs (step x w)"

fun is_lock :: "'v operation \<Rightarrow> bool" where
  "is_lock (LockWeak i) = True"
| "is_lock x = False"

definition lock_free :: "'v operation list \<Rightarrow> bool" where
  "lock_free xs = (filter is_lock xs = [])"

text \<open>
  The handles that reference a block: the live variables whose control-block pointer is
  its address.
\<close>

definition points_to :: "addr \<Rightarrow> handle option \<Rightarrow> bool" where
  "points_to a s = (case s of None \<Rightarrow> False | Some h \<Rightarrow> control_ptr h = Some a)"

definition refs :: "addr \<Rightarrow> handle option list \<Rightarrow> nat" where
  "refs a hs = length (filter (points_to a) hs)"

definition owners :: "addr \<Rightarrow> 'v world \<Rightarrow> nat" where
  "owners a w = refs a (shared_vars w)"

definition observers :: "addr \<Rightarrow> 'v world \<Rightarrow> nat" where
  "observers a w = refs a (weak_vars w)"

text \<open>How often each cleanup hook of a block has run.\<close>

definition destroyed :: "addr \<Rightarrow> 'v world \<Rightarrow> nat" where
  "destroyed a w = count_list (trace (mem w)) (ZeroShared a)"

definition deallocated :: "addr \<Rightarrow> 'v world \<Rightarrow> nat" where
  "deallocated a w = count_list (trace (mem w)) (ZeroSharedAndWeak a)"

section \<open>The invariant of a program that never calls lock\<close>

text \<open>
  For every control block that was ever constructed: the strong count is the number of
  live owning handles that reference it, the weak count the number of live observing
  handles, the first cleanup hook has run once if no owner is left and never otherwise,
  and the second has run once if neither an owner nor an observer is left and never
  otherwise. An address without a block has no handle and no hook.
\<close>

definition block_inv :: "'v world \<Rightarrow> addr \<Rightarrow> bool" where
  "block_inv w a =
     (case heap (mem w) a of
        None \<Rightarrow> owners a w = 0 \<and> observers a w = 0 \<and> destroyed a w = 0 \<and> deallocated a w = 0
      | Some b \<Rightarrow>
          unat (shared_owners b) = owners a w \<and>
          unat (shared_weak_owners b) = observers a w \<and>
          destroyed a w = (if owners a w = 0 then 1 else 0) \<and>
          deallocated a w = (if owners a w = 0 \<and> observers a w = 0 then 1 else 0))"

text \<open>
  A state is consistent when every address satisfies the block invariant and nothing lives
  at or above the next address of the store.
\<close>

definition consistent :: "'v world \<Rightarrow> bool" where
  "consistent w = ((\<forall>a. block_inv w a) \<and> (\<forall>a. next_addr (mem w) \<le> a \<longrightarrow> heap (mem w) a = None))"

text \<open>
  What one operation may do to a block and its owners: the block stays in the store, it
  loses at most one owner, a block without owners gets none, and a block that enters the
  store has an owner.
\<close>

definition advances :: "'v world \<Rightarrow> 'v world \<Rightarrow> addr \<Rightarrow> bool" where
  "advances w w' a =
     ((heap (mem w) a = None \<or> heap (mem w') a \<noteq> None) \<and>
      owners a w \<le> owners a w' + 1 \<and>
      (heap (mem w) a = None \<or> 0 < owners a w \<or> owners a w' = 0) \<and>
      (heap (mem w) a \<noteq> None \<or> heap (mem w') a = None \<or> 0 < owners a w'))"

text \<open>
  What a constructor returns: an exception and the store's blocks as they were, or a
  handle of a new block at the next address.
\<close>

definition builds :: "'v memory \<Rightarrow> (exn + SharedPtr) \<times> 'v memory \<Rightarrow> bool" where
  "builds m r =
     ((\<exists>e m'. r = (Inl e, m') \<and> heap m' = heap m) \<or>
      (\<exists>h m'. r = (Inr h, m') \<and> control_ptr h = Some (next_addr m) \<and>
         heap m' (next_addr m) \<noteq> None \<and> (\<forall>a. a \<noteq> next_addr m \<longrightarrow> heap m' a = heap m a)))"

text \<open>
  The control block behind an observing handle is in the store, as its weak count
  guarantees.
\<close>

definition valid_handle :: "handle \<Rightarrow> 'v memory \<Rightarrow> bool" where
  "valid_handle h m = (case control_ptr h of None \<Rightarrow> True | Some a \<Rightarrow> heap m a \<noteq> None)"

text \<open>
  The strong count of an owning handle's block includes the handle, and one more owner
  does not overflow the counter.
\<close>

definition counted_owner :: "SharedPtr \<Rightarrow> 'v memory \<Rightarrow> bool" where
  "counted_owner h m =
     (case control_ptr h of
        None \<Rightarrow> True
      | Some a \<Rightarrow>
          (case heap m a of
             None \<Rightarrow> False
           | Some b \<Rightarrow> shared_owners b \<noteq> 0 \<and> shared_owners b + 1 \<noteq> 0))"

text \<open>
  What the first cleanup hook of a block does after it is entered, as the log shows it:
  \<^verbatim>\<open>SharedPtrPointer\<close> calls the deleter on the stored pointer and destroys the
  deleter, \<^verbatim>\<open>SharedPtrEmplacer\<close> destroys the element. A destruction of the managed
  object is an entry into the hook that these events follow at once.
\<close>

fun followed :: "event \<Rightarrow> event list \<Rightarrow> event list \<Rightarrow> bool" where
  "followed mk rest [] = True"
| "followed mk rest (e # es) =
     ((if e = mk then take (length rest) es = rest else True) \<and> followed mk rest es)"

fun hook_runs :: "event \<Rightarrow> event list \<Rightarrow> event list \<Rightarrow> nat" where
  "hook_runs mk rest [] = 0"
| "hook_runs mk rest (e # es) =
     (if e = mk \<and> take (length rest) es = rest then 1 else 0) + hook_runs mk rest es"

fun destruction_events :: "addr \<Rightarrow> 'v payload \<Rightarrow> event list" where
  "destruction_events a (PointerBlock p d al) = [InvokeDeleter d p, DestroyDeleter a]"
| "destruction_events a (EmplacerBlock al v) = [DestroyElem a]"

definition destructions :: "addr \<Rightarrow> 'v world \<Rightarrow> nat" where
  "destructions a w =
     (case heap (mem w) a of
        None \<Rightarrow> 0
      | Some b \<Rightarrow> hook_runs (ZeroShared a) (destruction_events a (payload b)) (trace (mem w)))"

fun element_gone :: "'v payload \<Rightarrow> bool" where
  "element_gone (PointerBlock p d al) = False"
| "element_gone (EmplacerBlock al v) = (v = None)"

fun is_emplacer :: "'v payload \<Rightarrow> bool" where
  "is_emplacer (PointerBlock p d al) = False"
| "is_emplacer (EmplacerBlock al v) = True"

text \<open>
  Every entry into the first hook of a block in the store is a destruction, and the
  element of a combined block is gone exactly when the hook has been entered.
\<close>

definition hooked :: "'v memory \<Rightarrow> bool" where
  "hooked m =
     (\<forall>a b. heap m a = Some b \<longrightarrow>
        followed (ZeroShared a) (destruction_events a (payload b)) (trace m) \<and>
        (is_emplacer (payload b) \<longrightarrow>
           element_gone (payload b) = (ZeroShared a \<in> set (trace m))))"

section \<open>Words and reference lists\<close>

lemma word_pos_iff: "(0 < (x::size_t)) = (x \<noteq> 0)"
  by (simp add: word_neq_0_conv)

lemma word_pred_zero: "((x::size_t) - 1 = 0) = (x = 1)"
  by auto

lemma unat_succ: "unat (x::size_t) < 2 ^ 64 - 1 \<Longrightarrow> unat (x + 1) = unat x + 1"
  by (simp add: unat_word_ariths)

lemma unat_pred: "(x::size_t) \<noteq> 0 \<Longrightarrow> unat (x - 1) = unat x - 1"
  by (simp add: unat_minus_one)

lemma unat_one_iff: "(unat (x::size_t) = Suc 0) = (x = 1)"
  by (metis unat_1 word_unat_eq_iff One_nat_def)

lemma refs_Nil: "refs a [] = 0"
  by (simp add: refs_def)

lemma refs_append: "refs a (xs @ ys) = refs a xs + refs a ys"
  by (simp add: refs_def)

lemma refs_single: "refs a [x] = (if points_to a x then 1 else 0)"
  by (simp add: refs_def)

lemma refs_Cons: "refs a (x # xs) = (if points_to a x then 1 else 0) + refs a xs"
  by (simp add: refs_def)

lemma refs_update:
  "i < length xs \<Longrightarrow>
   refs a (xs[i := y]) + (if points_to a (xs ! i) then 1 else 0) =
   refs a xs + (if points_to a y then 1 else 0)"
proof (induction xs arbitrary: i)
  case Nil
  then show ?case by simp
next
  case (Cons x xs)
  show ?case
  proof (cases i)
    case 0
    then show ?thesis by (simp add: refs_Cons)
  next
    case (Suc j)
    with Cons.prems have "j < length xs" by simp
    from Cons.IH [OF this] Suc show ?thesis by (simp add: refs_Cons)
  qed
qed

lemma refs_le_length: "refs a xs \<le> length xs"
  by (simp add: refs_def)

lemma refs_pos: "i < length xs \<Longrightarrow> points_to a (xs ! i) \<Longrightarrow> 0 < refs a xs"
  unfolding refs_def by (metis filter_empty_conv length_greater_0_conv nth_mem)

section \<open>What the destructors do to the store\<close>

lemmas mem_defs = SharedPtr_dtor_def WeakPtr_dtor_def decrement_shared_def decrement_weak_def
  release_shared_def release_weak_def zero_shared_def zero_shared_and_weak_def update_block_def
  use_count_cb_def log_def Let_def add_shared_def add_weak_def

lemma SharedPtr_dtor_next:
  "next_addr (snd (SharedPtr_dtor h m)) = next_addr m"
  by (simp add: mem_defs split: option.splits payload.splits)

lemma SharedPtr_dtor_heap_other:
  "control_ptr h \<noteq> Some a \<Longrightarrow> heap (snd (SharedPtr_dtor h m)) a = heap m a"
  by (auto simp add: mem_defs split: option.splits payload.splits)

lemma SharedPtr_dtor_heap_same:
  "control_ptr h = Some c \<Longrightarrow> heap m c = Some b \<Longrightarrow> shared_owners b \<noteq> 0 \<Longrightarrow>
   \<exists>b'. heap (snd (SharedPtr_dtor h m)) c = Some b' \<and> shared_owners b' = shared_owners b - 1
      \<and> shared_weak_owners b' = shared_weak_owners b"
  by (auto simp add: mem_defs word_pos_iff split: option.splits payload.splits)

lemma SharedPtr_dtor_trace_other:
  "control_ptr h \<noteq> Some a \<Longrightarrow>
   count_list (trace (snd (SharedPtr_dtor h m))) (ZeroShared a) = count_list (trace m) (ZeroShared a)
   \<and> count_list (trace (snd (SharedPtr_dtor h m))) (ZeroSharedAndWeak a) = count_list (trace m) (ZeroSharedAndWeak a)"
  by (auto simp add: mem_defs split: option.splits payload.splits)

lemma SharedPtr_dtor_trace_same:
  "control_ptr h = Some c \<Longrightarrow> heap m c = Some b \<Longrightarrow> shared_owners b \<noteq> 0 \<Longrightarrow>
   count_list (trace (snd (SharedPtr_dtor h m))) (ZeroShared c) =
     count_list (trace m) (ZeroShared c) + (if shared_owners b = 1 then 1 else 0)
   \<and> count_list (trace (snd (SharedPtr_dtor h m))) (ZeroSharedAndWeak c) =
     count_list (trace m) (ZeroSharedAndWeak c) + (if shared_owners b = 1 \<and> shared_weak_owners b = 0 then 1 else 0)"
  by (auto simp add: mem_defs word_pos_iff word_pred_zero split: option.splits payload.splits)

section \<open>Every operation but lock keeps the invariant\<close>

lemma consistentI:
  "(\<And>a. block_inv w a) \<Longrightarrow> (\<And>a. next_addr (mem w) \<le> a \<Longrightarrow> heap (mem w) a = None) \<Longrightarrow> consistent w"
  by (simp add: consistent_def)

lemma consistent_block: "consistent w \<Longrightarrow> block_inv w a"
  by (simp add: consistent_def)

lemma consistent_fresh: "consistent w \<Longrightarrow> next_addr (mem w) \<le> a \<Longrightarrow> heap (mem w) a = None"
  by (simp add: consistent_def)

lemma block_inv_frame:
  assumes "block_inv w a"
    and "heap (mem w') a = heap (mem w) a"
    and "owners a w' = owners a w" and "observers a w' = observers a w"
    and "destroyed a w' = destroyed a w" and "deallocated a w' = deallocated a w"
  shows "block_inv w' a"
  using assms(1) unfolding block_inv_def assms(2-6) .

text \<open>A live owner's block exists and its strong count is positive.\<close>

lemma owner_block:
  assumes "block_inv w c" and "live_shared w i = Some h" and "control_ptr h = Some c"
  shows "\<exists>b. heap (mem w) c = Some b \<and> shared_owners b \<noteq> 0 \<and> unat (shared_owners b) = owners c w
     \<and> unat (shared_weak_owners b) = observers c w \<and> destroyed c w = 0 \<and> deallocated c w = 0
     \<and> 0 < owners c w"
proof -
  from assms(2) have i: "i < length (shared_vars w)" and hi: "shared_vars w ! i = Some h"
    by (auto simp: live_shared_def split: if_splits)
  from hi assms(3) have "points_to c (shared_vars w ! i)" by (simp add: points_to_def)
  with i have pos: "0 < owners c w" unfolding owners_def by (rule refs_pos)
  with assms(1) show ?thesis
    by (cases "heap (mem w) c") (auto simp: block_inv_def)
qed

lemma observer_block:
  assumes "block_inv w c" and "live_weak w i = Some h" and "control_ptr h = Some c"
  shows "\<exists>b. heap (mem w) c = Some b \<and> shared_weak_owners b \<noteq> 0 \<and> unat (shared_owners b) = owners c w
     \<and> unat (shared_weak_owners b) = observers c w \<and> deallocated c w = 0
     \<and> destroyed c w = (if owners c w = 0 then 1 else 0)
     \<and> 0 < observers c w"
proof -
  from assms(2) have i: "i < length (weak_vars w)" and hi: "weak_vars w ! i = Some h"
    by (auto simp: live_weak_def split: if_splits)
  from hi assms(3) have "points_to c (weak_vars w ! i)" by (simp add: points_to_def)
  with i have pos: "0 < observers c w" unfolding observers_def by (rule refs_pos)
  with assms(1) show ?thesis
    by (cases "heap (mem w) c") (auto simp: block_inv_def)
qed

lemma destroy_shared_Some:
  "live_shared w i = Some h \<Longrightarrow>
   destroy_shared i w = w\<lparr>mem := snd (SharedPtr_dtor h (mem w)), shared_vars := (shared_vars w)[i := None]\<rparr>"
  by (simp add: destroy_shared_def split_def)

lemma owners_drop:
  assumes "live_shared w i = Some h"
  shows "owners a (w\<lparr>mem := m, shared_vars := (shared_vars w)[i := None]\<rparr>) + (if control_ptr h = Some a then 1 else 0) = owners a w"
proof -
  from assms have i: "i < length (shared_vars w)" and hi: "shared_vars w ! i = Some h"
    by (auto simp: live_shared_def split: if_splits)
  from refs_update [OF i, of a None] hi show ?thesis
    by (simp add: owners_def points_to_def)
qed

lemma destroy_shared_consistent:
  assumes "consistent w"
  shows "consistent (destroy_shared i w)"
proof (cases "live_shared w i")
  case None
  then show ?thesis using assms by (simp add: destroy_shared_def)
next
  case (Some h)
  let ?m = "snd (SharedPtr_dtor h (mem w))"
  let ?w = "w\<lparr>mem := ?m, shared_vars := (shared_vars w)[i := None]\<rparr>"
  have eq: "destroy_shared i w = ?w" by (rule destroy_shared_Some [OF Some])
  have obs: "\<And>a. observers a ?w = observers a w" by (simp add: observers_def)
  have own: "\<And>a. owners a ?w + (if control_ptr h = Some a then 1 else 0) = owners a w"
    by (rule owners_drop [OF Some])
  have blk: "block_inv ?w a" for a
  proof (cases "control_ptr h = Some a")
    case False
    show ?thesis
    proof (rule block_inv_frame [OF consistent_block [OF assms]])
      show "heap (mem ?w) a = heap (mem w) a" using False by (simp add: SharedPtr_dtor_heap_other)
      show "owners a ?w = owners a w" using own [of a] False by simp
      show "observers a ?w = observers a w" by (rule obs)
      show "destroyed a ?w = destroyed a w" 
        using SharedPtr_dtor_trace_other [OF False, of "mem w"] by (simp add: destroyed_def)
      show "deallocated a ?w = deallocated a w"
        using SharedPtr_dtor_trace_other [OF False, of "mem w"] by (simp add: deallocated_def)
    qed
  next
    case True
    from owner_block [OF consistent_block [OF assms] Some True]
    obtain b where b: "heap (mem w) a = Some b" "shared_owners b \<noteq> 0"
      "unat (shared_owners b) = owners a w" "unat (shared_weak_owners b) = observers a w"
      "destroyed a w = 0" "deallocated a w = 0" "0 < owners a w" by blast
    from SharedPtr_dtor_heap_same [OF True b(1) b(2)]
    obtain b' where b': "heap ?m a = Some b'" "shared_owners b' = shared_owners b - 1"
      "shared_weak_owners b' = shared_weak_owners b" by blast
    have o': "owners a ?w = owners a w - 1" using own [of a] True by simp
    have one: "(owners a w - 1 = 0) = (shared_owners b = 1)"
      using b(3) b(7) unat_one_iff [of "shared_owners b"] by auto
    have wz: "(observers a w = 0) = (shared_weak_owners b = 0)"
      using b(4) by (metis unat_eq_0)
    have d1: "destroyed a ?w = (if shared_owners b = 1 then 1 else 0)"
      using SharedPtr_dtor_trace_same [OF True b(1) b(2)] b(5) by (simp add: destroyed_def)
    have d2: "deallocated a ?w = (if shared_owners b = 1 \<and> shared_weak_owners b = 0 then 1 else 0)"
      using SharedPtr_dtor_trace_same [OF True b(1) b(2)] b(6) by (simp add: deallocated_def)
    show ?thesis
      unfolding block_inv_def using b' b(3,4) o' one wz d1 d2 obs [of a] unat_pred [OF b(2)]
      by simp
  qed
  have fr: "heap (mem ?w) a = None" if "next_addr (mem ?w) \<le> a" for a
  proof -
    from that have le: "next_addr (mem w) \<le> a" by (simp add: SharedPtr_dtor_next)
    hence none: "heap (mem w) a = None" by (rule consistent_fresh [OF assms])
    have "control_ptr h \<noteq> Some a"
    proof
      assume "control_ptr h = Some a"
      from owner_block [OF consistent_block [OF assms] Some this] none show False by simp
    qed
    thus ?thesis using none by (simp add: SharedPtr_dtor_heap_other)
  qed
  show ?thesis unfolding eq by (rule consistentI) (rule blk, rule fr)
qed

lemma refs_swap:
  assumes "i < length xs" "j < length xs"
    and "points_to a y1 = points_to a (xs ! j)" "points_to a y2 = points_to a (xs ! i)"
  shows "refs a (xs[i := y1, j := y2]) = refs a xs"
proof (cases "i = j")
  case True
  with refs_update [OF assms(1), of a y2] assms show ?thesis by simp
next
  case False
  have j': "j < length (xs[i := y1])" using assms(2) by simp
  from refs_update [OF j', of a y2] False
  have 1: "refs a (xs[i := y1, j := y2]) + (if points_to a (xs ! j) then 1 else 0)
     = refs a (xs[i := y1]) + (if points_to a y2 then 1 else 0)" by simp
  from refs_update [OF assms(1), of a y1]
  have 2: "refs a (xs[i := y1]) + (if points_to a (xs ! i) then 1 else 0)
     = refs a xs + (if points_to a y1 then 1 else 0)" .
  from 1 2 assms(3,4) show ?thesis by (simp split: if_splits)
qed

lemma refs_move:
  assumes "i < length xs" "\<not> points_to a y" "points_to a z = points_to a (xs ! i)"
  shows "refs a (xs[i := y] @ [z]) = refs a xs"
  using refs_update [OF assms(1), of a y] assms(2,3)
  by (simp add: refs_append refs_single split: if_splits)

lemma add_shared_simps:
  "trace (add_shared c m) = trace m"
  "next_addr (add_shared c m) = next_addr m"
  "heap (add_shared c m) a =
     (if a = c then map_option (\<lambda>b. b\<lparr>shared_owners := shared_owners b + 1\<rparr>) (heap m c)
      else heap m a)"
  by (simp_all add: add_shared_def update_block_def split: option.splits)

lemma add_weak_simps:
  "trace (add_weak c m) = trace m"
  "next_addr (add_weak c m) = next_addr m"
  "heap (add_weak c m) a =
     (if a = c then map_option (\<lambda>b. b\<lparr>shared_weak_owners := shared_weak_owners b + 1\<rparr>) (heap m c)
      else heap m a)"
  by (simp_all add: add_weak_def update_block_def split: option.splits)

lemma live_sharedD: "live_shared w i = Some h \<Longrightarrow> i < length (shared_vars w) \<and> shared_vars w ! i = Some h"
  by (auto simp: live_shared_def split: if_splits)

lemma live_weakD: "live_weak w i = Some h \<Longrightarrow> i < length (weak_vars w) \<and> weak_vars w ! i = Some h"
  by (auto simp: live_weak_def split: if_splits)

lemma owners_le: "owners a w \<le> length (shared_vars w)"
  by (simp add: owners_def refs_le_length)

lemma observers_le: "observers a w \<le> length (weak_vars w)"
  by (simp add: observers_def refs_le_length)

lemma consistent_frame:
  assumes "consistent w" and m: "mem w' = mem w"
    and o: "\<And>a. owners a w' = owners a w" and b: "\<And>a. observers a w' = observers a w"
  shows "consistent w'"
proof (rule consistentI)
  fix a
  show "block_inv w' a"
    by (rule block_inv_frame [OF consistent_block [OF assms(1)]])
       (simp_all add: m o b destroyed_def deallocated_def)
next
  fix a assume "next_addr (mem w') \<le> a"
  thus "heap (mem w') a = None" using consistent_fresh [OF assms(1), of a] by (simp add: m)
qed

lemma default_shared_consistent: "consistent w \<Longrightarrow> consistent (default_shared w)"
  by (erule consistent_frame)
     (simp_all add: default_shared_def owners_def observers_def refs_append refs_single
        points_to_def SharedPtr_default_def)

lemma default_weak_consistent: "consistent w \<Longrightarrow> consistent (default_weak w)"
  by (erule consistent_frame)
     (simp_all add: default_weak_def owners_def observers_def refs_append refs_single
        points_to_def WeakPtr_default_def)

lemma move_shared_consistent:
  assumes "consistent w" shows "consistent (move_shared i w)"
proof (cases "live_shared w i")
  case None
  then show ?thesis using assms by (simp add: move_shared_def)
next
  case (Some h)
  note d = live_sharedD [OF Some]
  show ?thesis using assms
  proof (rule consistent_frame)
    show "owners a (move_shared i w) = owners a w" for a
      using Some d
      by (simp add: move_shared_def SharedPtr_move_def owners_def refs_move points_to_def)
  qed (simp_all add: Some move_shared_def SharedPtr_move_def observers_def)
qed

lemma move_weak_consistent:
  assumes "consistent w" shows "consistent (move_weak i w)"
proof (cases "live_weak w i")
  case None
  then show ?thesis using assms by (simp add: move_weak_def)
next
  case (Some h)
  note d = live_weakD [OF Some]
  show ?thesis using assms
  proof (rule consistent_frame)
    show "observers a (move_weak i w) = observers a w" for a
      using Some d
      by (simp add: move_weak_def WeakPtr_move_def observers_def refs_move points_to_def)
  qed (simp_all add: Some move_weak_def WeakPtr_move_def owners_def)
qed

lemma swap_shared_consistent:
  assumes "consistent w" shows "consistent (swap_shared i j w)"
proof (cases "live_shared w i")
  case None
  then show ?thesis using assms by (simp add: swap_shared_def)
next
  case hi: (Some hi)
  show ?thesis
  proof (cases "live_shared w j")
    case None
    then show ?thesis using assms hi by (simp add: swap_shared_def)
  next
    case hj: (Some hj)
    note di = live_sharedD [OF hi] and dj = live_sharedD [OF hj]
    show ?thesis using assms
    proof (rule consistent_frame)
      show "owners a (swap_shared i j w) = owners a w" for a
        using hi hj di dj
        by (simp add: swap_shared_def SharedPtr_swap_def owners_def refs_swap points_to_def)
    qed (simp_all add: hi hj swap_shared_def SharedPtr_swap_def observers_def)
  qed
qed

lemma swap_weak_consistent:
  assumes "consistent w" shows "consistent (swap_weak i j w)"
proof (cases "live_weak w i")
  case None
  then show ?thesis using assms by (simp add: swap_weak_def)
next
  case hi: (Some hi)
  show ?thesis
  proof (cases "live_weak w j")
    case None
    then show ?thesis using assms hi by (simp add: swap_weak_def)
  next
    case hj: (Some hj)
    note di = live_weakD [OF hi] and dj = live_weakD [OF hj]
    show ?thesis using assms
    proof (rule consistent_frame)
      show "observers a (swap_weak i j w) = observers a w" for a
        using hi hj di dj
        by (simp add: swap_weak_def WeakPtr_swap_def observers_def refs_swap points_to_def)
    qed (simp_all add: hi hj swap_weak_def WeakPtr_swap_def owners_def)
  qed
qed

lemma WeakPtr_dtor_next:
  "next_addr (snd (WeakPtr_dtor h m)) = next_addr m"
  by (simp add: mem_defs split: option.splits payload.splits)

lemma WeakPtr_dtor_heap_other:
  "control_ptr h \<noteq> Some a \<Longrightarrow> heap (snd (WeakPtr_dtor h m)) a = heap m a"
  by (auto simp add: mem_defs split: option.splits payload.splits)

lemma WeakPtr_dtor_heap_same:
  "control_ptr h = Some c \<Longrightarrow> heap m c = Some b \<Longrightarrow> shared_weak_owners b \<noteq> 0 \<Longrightarrow>
   \<exists>b'. heap (snd (WeakPtr_dtor h m)) c = Some b' \<and> shared_owners b' = shared_owners b
      \<and> shared_weak_owners b' = shared_weak_owners b - 1"
  by (auto simp add: mem_defs word_pos_iff split: option.splits payload.splits)

lemma WeakPtr_dtor_trace_shared:
  "count_list (trace (snd (WeakPtr_dtor h m))) (ZeroShared a) = count_list (trace m) (ZeroShared a)"
  by (auto simp add: mem_defs split: option.splits payload.splits)

lemma WeakPtr_dtor_trace_other:
  "control_ptr h \<noteq> Some a \<Longrightarrow>
   count_list (trace (snd (WeakPtr_dtor h m))) (ZeroSharedAndWeak a) = count_list (trace m) (ZeroSharedAndWeak a)"
  by (auto simp add: mem_defs split: option.splits payload.splits)

lemma WeakPtr_dtor_trace_same:
  "control_ptr h = Some c \<Longrightarrow> heap m c = Some b \<Longrightarrow> shared_weak_owners b \<noteq> 0 \<Longrightarrow>
   count_list (trace (snd (WeakPtr_dtor h m))) (ZeroSharedAndWeak c) =
     count_list (trace m) (ZeroSharedAndWeak c) + (if shared_owners b = 0 \<and> shared_weak_owners b = 1 then 1 else 0)"
  by (auto simp add: mem_defs word_pos_iff word_pred_zero split: option.splits payload.splits)

lemma destroy_weak_Some:
  "live_weak w i = Some h \<Longrightarrow>
   destroy_weak i w = w\<lparr>mem := snd (WeakPtr_dtor h (mem w)), weak_vars := (weak_vars w)[i := None]\<rparr>"
  by (simp add: destroy_weak_def split_def)

lemma observers_drop:
  assumes "live_weak w i = Some h"
  shows "observers a (w\<lparr>mem := m, weak_vars := (weak_vars w)[i := None]\<rparr>) + (if control_ptr h = Some a then 1 else 0) = observers a w"
proof -
  note d = live_weakD [OF assms]
  from refs_update [of i "weak_vars w" a None] d show ?thesis
    by (simp add: observers_def points_to_def)
qed

lemma destroy_weak_consistent:
  assumes "consistent w"
  shows "consistent (destroy_weak i w)"
proof (cases "live_weak w i")
  case None
  then show ?thesis using assms by (simp add: destroy_weak_def)
next
  case (Some h)
  let ?m = "snd (WeakPtr_dtor h (mem w))"
  let ?w = "w\<lparr>mem := ?m, weak_vars := (weak_vars w)[i := None]\<rparr>"
  have eq: "destroy_weak i w = ?w" by (rule destroy_weak_Some [OF Some])
  have own: "\<And>a. owners a ?w = owners a w" by (simp add: owners_def)
  have obs: "\<And>a. observers a ?w + (if control_ptr h = Some a then 1 else 0) = observers a w"
    by (rule observers_drop [OF Some])
  have des: "\<And>a. destroyed a ?w = destroyed a w"
    by (simp add: destroyed_def WeakPtr_dtor_trace_shared)
  have blk: "block_inv ?w a" for a
  proof (cases "control_ptr h = Some a")
    case False
    show ?thesis
    proof (rule block_inv_frame [OF consistent_block [OF assms]])
      show "heap (mem ?w) a = heap (mem w) a" using False by (simp add: WeakPtr_dtor_heap_other)
      show "owners a ?w = owners a w" by (rule own)
      show "observers a ?w = observers a w" using obs [of a] False by simp
      show "destroyed a ?w = destroyed a w" by (rule des)
      show "deallocated a ?w = deallocated a w"
        using WeakPtr_dtor_trace_other [OF False, of "mem w"] by (simp add: deallocated_def)
    qed
  next
    case True
    from observer_block [OF consistent_block [OF assms] Some True]
    obtain b where b: "heap (mem w) a = Some b" "shared_weak_owners b \<noteq> 0"
      "unat (shared_owners b) = owners a w" "unat (shared_weak_owners b) = observers a w"
      "deallocated a w = 0" "destroyed a w = (if owners a w = 0 then 1 else 0)"
      "0 < observers a w" by blast
    from WeakPtr_dtor_heap_same [OF True b(1) b(2)]
    obtain b' where b': "heap ?m a = Some b'" "shared_owners b' = shared_owners b"
      "shared_weak_owners b' = shared_weak_owners b - 1" by blast
    have o': "observers a ?w = observers a w - 1" using obs [of a] True by simp
    have one: "(observers a w - 1 = 0) = (shared_weak_owners b = 1)"
      using b(4) b(7) unat_one_iff [of "shared_weak_owners b"] by auto
    have sz: "(owners a w = 0) = (shared_owners b = 0)"
      using b(3) by (metis unat_eq_0)
    have d2: "deallocated a ?w = (if shared_owners b = 0 \<and> shared_weak_owners b = 1 then 1 else 0)"
      using WeakPtr_dtor_trace_same [OF True b(1) b(2)] b(5) by (simp add: deallocated_def)
    show ?thesis
      unfolding block_inv_def using b' b(3,4,6) o' one sz d2 own [of a] des [of a] unat_pred [OF b(2)]
      by simp
  qed
  have fr: "heap (mem ?w) a = None" if "next_addr (mem ?w) \<le> a" for a
  proof -
    from that have le: "next_addr (mem w) \<le> a" by (simp add: WeakPtr_dtor_next)
    hence none: "heap (mem w) a = None" by (rule consistent_fresh [OF assms])
    have "control_ptr h \<noteq> Some a"
    proof
      assume "control_ptr h = Some a"
      from observer_block [OF consistent_block [OF assms] Some this] none show False by simp
    qed
    thus ?thesis using none by (simp add: WeakPtr_dtor_heap_other)
  qed
  show ?thesis unfolding eq by (rule consistentI) (rule blk, rule fr)
qed

lemma bump_owner_consistent:
  assumes c: "consistent w" and b: "heap (mem w) c = Some b" and pos: "0 < owners c w"
    and room: "length (shared_vars w) < 2 ^ 64 - 1" and h: "control_ptr h = Some c"
  shows "consistent (w\<lparr>mem := add_shared c (mem w), shared_vars := shared_vars w @ [Some h]\<rparr>)"
    (is "consistent ?w")
proof (rule consistentI)
  fix a
  have obs: "observers a ?w = observers a w" by (simp add: observers_def)
  have des: "destroyed a ?w = destroyed a w" by (simp add: destroyed_def add_shared_simps)
  have dea: "deallocated a ?w = deallocated a w" by (simp add: deallocated_def add_shared_simps)
  show "block_inv ?w a"
  proof (cases "a = c")
    case False
    hence ne: "c \<noteq> a" by simp
    show ?thesis
      by (rule block_inv_frame [OF consistent_block [OF c]])
         (simp_all add: obs des dea add_shared_simps False ne owners_def refs_append refs_single
            points_to_def h)
  next
    case True
    have own: "owners c ?w = owners c w + 1"
      by (simp add: owners_def refs_append refs_single points_to_def h)
    from consistent_block [OF c, of c] b
    have inv: "unat (shared_owners b) = owners c w" "unat (shared_weak_owners b) = observers c w"
      "destroyed c w = (if owners c w = 0 then 1 else 0)"
      "deallocated c w = (if owners c w = 0 \<and> observers c w = 0 then 1 else 0)"
      by (simp_all add: block_inv_def)
    have "unat (shared_owners b) < 2 ^ 64 - 1" using inv(1) owners_le [of c w] room by simp
    hence up: "unat (shared_owners b + 1) = owners c w + 1" using inv(1) by (simp add: unat_succ)
    show ?thesis unfolding True block_inv_def
      using b up inv pos own obs des dea
      by (simp add: add_shared_simps True)
  qed
next
  fix a assume "next_addr (mem ?w) \<le> a"
  hence "heap (mem w) a = None" using consistent_fresh [OF c, of a] by (simp add: add_shared_simps)
  thus "heap (mem ?w) a = None" using b by (auto simp: add_shared_simps)
qed

lemma bump_observer_consistent:
  assumes c: "consistent w" and b: "heap (mem w) c = Some b"
    and pos: "0 < owners c w \<or> 0 < observers c w"
    and room: "length (weak_vars w) < 2 ^ 64 - 1" and h: "control_ptr h = Some c"
  shows "consistent (w\<lparr>mem := add_weak c (mem w), weak_vars := weak_vars w @ [Some h]\<rparr>)"
    (is "consistent ?w")
proof (rule consistentI)
  fix a
  have own: "owners a ?w = owners a w" by (simp add: owners_def)
  have des: "destroyed a ?w = destroyed a w" by (simp add: destroyed_def add_weak_simps)
  have dea: "deallocated a ?w = deallocated a w" by (simp add: deallocated_def add_weak_simps)
  show "block_inv ?w a"
  proof (cases "a = c")
    case False
    hence ne: "c \<noteq> a" by simp
    show ?thesis
      by (rule block_inv_frame [OF consistent_block [OF c]])
         (simp_all add: own des dea add_weak_simps False ne observers_def refs_append refs_single
            points_to_def h)
  next
    case True
    have obs: "observers c ?w = observers c w + 1"
      by (simp add: observers_def refs_append refs_single points_to_def h)
    from consistent_block [OF c, of c] b
    have inv: "unat (shared_owners b) = owners c w" "unat (shared_weak_owners b) = observers c w"
      "destroyed c w = (if owners c w = 0 then 1 else 0)"
      "deallocated c w = (if owners c w = 0 \<and> observers c w = 0 then 1 else 0)"
      by (simp_all add: block_inv_def)
    have "unat (shared_weak_owners b) < 2 ^ 64 - 1" using inv(2) observers_le [of c w] room by simp
    hence up: "unat (shared_weak_owners b + 1) = observers c w + 1" using inv(2) by (simp add: unat_succ)
    show ?thesis unfolding True block_inv_def
      using b up inv pos own obs des dea
      by (auto simp add: add_weak_simps True)
  qed
next
  fix a assume "next_addr (mem ?w) \<le> a"
  hence "heap (mem w) a = None" using consistent_fresh [OF c, of a] by (simp add: add_weak_simps)
  thus "heap (mem ?w) a = None" using b by (auto simp: add_weak_simps)
qed

lemma copy_shared_consistent:
  assumes "consistent w" "length (shared_vars w) < 2 ^ 64 - 1"
  shows "consistent (copy_shared i w)"
proof (cases "live_shared w i")
  case None
  then show ?thesis using assms by (simp add: copy_shared_def)
next
  case (Some h)
  show ?thesis
  proof (cases "control_ptr h")
    case None
    show ?thesis using assms(1)
      by (rule consistent_frame)
         (simp_all add: Some None copy_shared_def SharedPtr_copy_def owners_def observers_def
            refs_append refs_single points_to_def)
  next
    case (Some c)
    from owner_block [OF consistent_block [OF assms(1)] \<open>live_shared w i = Some h\<close> Some]
    obtain b where b: "heap (mem w) c = Some b" "0 < owners c w" by blast
    have "copy_shared i w = w\<lparr>mem := add_shared c (mem w),
        shared_vars := shared_vars w @ [Some \<lparr>element_ptr = element_ptr h, control_ptr = control_ptr h\<rparr>]\<rparr>"
      using \<open>live_shared w i = Some h\<close> Some by (simp add: copy_shared_def SharedPtr_copy_def)
    thus ?thesis
      using bump_owner_consistent [OF assms(1) b(1) b(2) assms(2), of "\<lparr>element_ptr = element_ptr h, control_ptr = control_ptr h\<rparr>"] Some
      by simp
  qed
qed

lemma copy_weak_consistent:
  assumes "consistent w" "length (weak_vars w) < 2 ^ 64 - 1"
  shows "consistent (copy_weak i w)"
proof (cases "live_weak w i")
  case None
  then show ?thesis using assms by (simp add: copy_weak_def)
next
  case (Some h)
  show ?thesis
  proof (cases "control_ptr h")
    case None
    show ?thesis using assms(1)
      by (rule consistent_frame)
         (simp_all add: Some None copy_weak_def WeakPtr_copy_def owners_def observers_def
            refs_append refs_single points_to_def)
  next
    case (Some c)
    from observer_block [OF consistent_block [OF assms(1)] \<open>live_weak w i = Some h\<close> Some]
    obtain b where b: "heap (mem w) c = Some b" "0 < observers c w" by blast
    hence pos: "0 < owners c w \<or> 0 < observers c w" by simp
    have "copy_weak i w = w\<lparr>mem := add_weak c (mem w),
        weak_vars := weak_vars w @ [Some \<lparr>element_ptr = element_ptr h, control_ptr = control_ptr h\<rparr>]\<rparr>"
      using \<open>live_weak w i = Some h\<close> Some by (simp add: copy_weak_def WeakPtr_copy_def)
    thus ?thesis
      using bump_observer_consistent [OF assms(1) b(1) pos assms(2), of "\<lparr>element_ptr = element_ptr h, control_ptr = control_ptr h\<rparr>"] Some
      by simp
  qed
qed

lemma weak_from_shared_consistent:
  assumes "consistent w" "length (weak_vars w) < 2 ^ 64 - 1"
  shows "consistent (weak_from_shared i w)"
proof (cases "live_shared w i")
  case None
  then show ?thesis using assms by (simp add: weak_from_shared_def)
next
  case (Some h)
  show ?thesis
  proof (cases "control_ptr h")
    case None
    show ?thesis using assms(1)
      by (rule consistent_frame)
         (simp_all add: Some None weak_from_shared_def WeakPtr_from_shared_def owners_def
            observers_def refs_append refs_single points_to_def)
  next
    case (Some c)
    from owner_block [OF consistent_block [OF assms(1)] \<open>live_shared w i = Some h\<close> Some]
    obtain b where b: "heap (mem w) c = Some b" "0 < owners c w" by blast
    hence pos: "0 < owners c w \<or> 0 < observers c w" by simp
    have "weak_from_shared i w = w\<lparr>mem := add_weak c (mem w),
        weak_vars := weak_vars w @ [Some \<lparr>element_ptr = element_ptr h, control_ptr = control_ptr h\<rparr>]\<rparr>"
      using \<open>live_shared w i = Some h\<close> Some
      by (simp add: weak_from_shared_def WeakPtr_from_shared_def)
    thus ?thesis
      using bump_observer_consistent [OF assms(1) b(1) pos assms(2), of "\<lparr>element_ptr = element_ptr h, control_ptr = control_ptr h\<rparr>"] Some
      by simp
  qed
qed

lemma construct_fail_consistent:
  assumes c: "consistent w" and hp: "heap m' = heap (mem w)"
    and nx: "next_addr (mem w) \<le> next_addr m'"
    and t1: "\<And>a. count_list (trace m') (ZeroShared a) = count_list (trace (mem w)) (ZeroShared a)"
    and t2: "\<And>a. count_list (trace m') (ZeroSharedAndWeak a) = count_list (trace (mem w)) (ZeroSharedAndWeak a)"
  shows "consistent (w\<lparr>mem := m'\<rparr>)"
proof (rule consistentI)
  fix a
  show "block_inv (w\<lparr>mem := m'\<rparr>) a"
    by (rule block_inv_frame [OF consistent_block [OF c]])
       (simp_all add: hp t1 t2 owners_def observers_def destroyed_def deallocated_def)
next
  fix a assume "next_addr (mem (w\<lparr>mem := m'\<rparr>)) \<le> a"
  with nx have "next_addr (mem w) \<le> a" by simp
  from consistent_fresh [OF c this] show "heap (mem (w\<lparr>mem := m'\<rparr>)) a = None" by (simp add: hp)
qed

lemma construct_ok_consistent:
  assumes c: "consistent w" and hp: "heap m' = (heap (mem w))(next_addr (mem w) \<mapsto> b)"
    and so: "shared_owners b = 1" and wo: "shared_weak_owners b = 0"
    and nx: "next_addr m' = Suc (next_addr (mem w))"
    and t1: "\<And>a. count_list (trace m') (ZeroShared a) = count_list (trace (mem w)) (ZeroShared a)"
    and t2: "\<And>a. count_list (trace m') (ZeroSharedAndWeak a) = count_list (trace (mem w)) (ZeroSharedAndWeak a)"
    and h: "control_ptr h = Some (next_addr (mem w))"
  shows "consistent (w\<lparr>mem := m', shared_vars := shared_vars w @ [Some h]\<rparr>)" (is "consistent ?w")
proof (rule consistentI)
  fix a
  show "block_inv ?w a"
  proof (cases "a = next_addr (mem w)")
    case False
    hence ne: "next_addr (mem w) \<noteq> a" by simp
    show ?thesis
      by (rule block_inv_frame [OF consistent_block [OF c]])
         (simp_all add: hp t1 t2 False ne h owners_def observers_def destroyed_def deallocated_def
            refs_append refs_single points_to_def)
  next
    case True
    from consistent_fresh [OF c, of a] True have "heap (mem w) a = None" by simp
    with consistent_block [OF c, of a]
    have z: "owners a w = 0" "observers a w = 0" "destroyed a w = 0" "deallocated a w = 0"
      by (simp_all add: block_inv_def)
    have "owners a ?w = 1" using z(1) True h
      by (simp add: owners_def refs_append refs_single points_to_def)
    moreover have "observers a ?w = 0" using z(2) by (simp add: observers_def)
    moreover have "destroyed a ?w = 0" using z(3) by (simp add: destroyed_def t1)
    moreover have "deallocated a ?w = 0" using z(4) by (simp add: deallocated_def t2)
    ultimately show ?thesis by (simp add: block_inv_def hp True so wo)
  qed
next
  fix a assume "next_addr (mem ?w) \<le> a"
  hence "Suc (next_addr (mem w)) \<le> a" by (simp add: nx)
  with consistent_fresh [OF c, of a] show "heap (mem ?w) a = None" by (simp add: hp)
qed

lemmas ctor_defs = SharedPtr_ptr_def SharedPtr_ptr_del_def SharedPtr_ptr_del_alloc_def
  AllocateShared_def MakeShared_def SharedPtrEmplacer_ctor_def create_with_control_block_def
  place_block_def take_addr_def log_def add_shared_def update_block_def Let_def

lemma SharedPtr_ptr_consistent:
  assumes "consistent w"
  shows "consistent (construct_shared (SharedPtr_ptr ok p (mem w)) w)"
proof (cases ok)
  case False
  thus ?thesis using assms by (simp add: construct_shared_def SharedPtr_ptr_def)
next
  case True
  show ?thesis unfolding construct_shared_def using True
    by (simp add: SharedPtr_ptr_def Let_def)
       (rule construct_ok_consistent [OF assms], (simp_all add: ctor_defs)+)
qed

lemma SharedPtr_ptr_del_consistent:
  assumes "consistent w"
  shows "consistent (construct_shared (SharedPtr_ptr_del env p d (mem w)) w)"
proof (cases env)
  case Succeeds
  show ?thesis unfolding construct_shared_def using Succeeds
    by (simp add: SharedPtr_ptr_del_def Let_def)
       (rule construct_ok_consistent [OF assms], (simp_all add: ctor_defs)+)
next
  case AllocFails
  show ?thesis unfolding construct_shared_def using AllocFails
    by (simp add: SharedPtr_ptr_del_def Let_def)
       (rule construct_fail_consistent [OF assms], simp_all add: ctor_defs)
next
  case ConstructFails
  show ?thesis unfolding construct_shared_def using ConstructFails
    by (simp add: SharedPtr_ptr_del_def Let_def)
       (rule construct_fail_consistent [OF assms], simp_all add: ctor_defs)
qed

lemma SharedPtr_ptr_del_alloc_consistent:
  assumes "consistent w"
  shows "consistent (construct_shared (SharedPtr_ptr_del_alloc env p d al (mem w)) w)"
proof (cases env)
  case Succeeds
  show ?thesis unfolding construct_shared_def using Succeeds
    by (simp add: SharedPtr_ptr_del_alloc_def Let_def)
       (rule construct_ok_consistent [OF assms], (simp_all add: ctor_defs)+)
next
  case AllocFails
  show ?thesis unfolding construct_shared_def using AllocFails assms
    by (simp add: SharedPtr_ptr_del_alloc_def Let_def)
next
  case ConstructFails
  show ?thesis unfolding construct_shared_def using ConstructFails
    by (simp add: SharedPtr_ptr_del_alloc_def Let_def)
       (rule construct_fail_consistent [OF assms], simp_all add: ctor_defs)
qed

lemma AllocateShared_consistent:
  assumes "consistent w"
  shows "consistent (construct_shared (AllocateShared ok ctor al args (mem w)) w)"
proof (cases ok)
  case False
  thus ?thesis using assms by (simp add: construct_shared_def AllocateShared_def)
next
  case True
  show ?thesis
  proof (cases "ctor args")
    case None
    show ?thesis unfolding construct_shared_def using True None
      by (simp add: AllocateShared_def SharedPtrEmplacer_ctor_def Let_def)
         (rule construct_fail_consistent [OF assms], simp_all add: ctor_defs)
  next
    case (Some v)
    show ?thesis unfolding construct_shared_def using True Some
      by (simp add: AllocateShared_def SharedPtrEmplacer_ctor_def create_with_control_block_def Let_def)
         (rule construct_ok_consistent [OF assms], (simp_all add: ctor_defs)+)
  qed
qed

lemma MakeShared_consistent:
  "consistent w \<Longrightarrow> consistent (construct_shared (MakeShared ok ctor args (mem w)) w)"
  unfolding MakeShared_def by (rule AllocateShared_consistent)

lemmas world_defs = construct_shared_def default_shared_def copy_shared_def move_shared_def
  destroy_shared_def swap_shared_def default_weak_def copy_weak_def move_weak_def
  weak_from_shared_def destroy_weak_def swap_weak_def lock_weak_def

lemma length_shared_prims:
  "length (shared_vars (construct_shared r w)) \<le> Suc (length (shared_vars w))"
  "length (shared_vars (default_shared w)) = Suc (length (shared_vars w))"
  "length (shared_vars (copy_shared i w)) \<le> Suc (length (shared_vars w))"
  "length (shared_vars (move_shared i w)) \<le> Suc (length (shared_vars w))"
  "length (shared_vars (destroy_shared i w)) = length (shared_vars w)"
  "length (shared_vars (swap_shared i j w)) = length (shared_vars w)"
  "length (shared_vars (default_weak w)) = length (shared_vars w)"
  "length (shared_vars (copy_weak i w)) = length (shared_vars w)"
  "length (shared_vars (move_weak i w)) = length (shared_vars w)"
  "length (shared_vars (weak_from_shared i w)) = length (shared_vars w)"
  "length (shared_vars (destroy_weak i w)) = length (shared_vars w)"
  "length (shared_vars (swap_weak i j w)) = length (shared_vars w)"
  by (auto simp: world_defs split_def Let_def split: option.splits sum.splits prod.splits)

lemma length_weak_prims:
  "length (weak_vars (construct_shared r w)) = length (weak_vars w)"
  "length (weak_vars (default_shared w)) = length (weak_vars w)"
  "length (weak_vars (copy_shared i w)) = length (weak_vars w)"
  "length (weak_vars (move_shared i w)) = length (weak_vars w)"
  "length (weak_vars (destroy_shared i w)) = length (weak_vars w)"
  "length (weak_vars (swap_shared i j w)) = length (weak_vars w)"
  "length (weak_vars (default_weak w)) = Suc (length (weak_vars w))"
  "length (weak_vars (copy_weak i w)) \<le> Suc (length (weak_vars w))"
  "length (weak_vars (move_weak i w)) \<le> Suc (length (weak_vars w))"
  "length (weak_vars (weak_from_shared i w)) \<le> Suc (length (weak_vars w))"
  "length (weak_vars (destroy_weak i w)) = length (weak_vars w)"
  "length (weak_vars (swap_weak i j w)) = length (weak_vars w)"
  by (auto simp: world_defs split_def Let_def split: option.splits sum.splits prod.splits)

lemmas composite_defs = assign_shared_def move_assign_shared_def reset_shared_def
  assign_weak_def move_assign_weak_def

lemma length_shared_step: "length (shared_vars (step x w)) \<le> Suc (length (shared_vars w))"
proof (cases x)
  case (AssignShared i j)
  show ?thesis using length_shared_prims(3) [of j w]
    by (simp add: AssignShared composite_defs Let_def length_shared_prims split: option.splits)
next
  case (MoveAssignShared i j)
  show ?thesis using length_shared_prims(4) [of j w]
    by (simp add: MoveAssignShared composite_defs Let_def length_shared_prims split: option.splits)
next
  case (LockWeak i)
  show ?thesis by (simp add: LockWeak lock_weak_def split: option.splits)
qed (simp_all add: composite_defs Let_def length_shared_prims split: option.splits)

lemma length_weak_step: "length (weak_vars (step x w)) \<le> Suc (length (weak_vars w))"
proof (cases x)
  case (AssignWeak i j)
  show ?thesis using length_weak_prims(8) [of j w]
    by (simp add: AssignWeak composite_defs Let_def length_weak_prims split: option.splits)
next
  case (MoveAssignWeak i j)
  show ?thesis using length_weak_prims(9) [of j w]
    by (simp add: MoveAssignWeak composite_defs Let_def length_weak_prims split: option.splits)
next
  case (LockWeak i)
  show ?thesis by (simp add: LockWeak lock_weak_def split: option.splits)
qed (simp_all add: composite_defs Let_def length_weak_prims split: option.splits)

lemma step_consistent:
  assumes c: "consistent w" and nl: "\<not> is_lock x"
    and rs: "length (shared_vars w) < 2 ^ 64 - 1" and rw: "length (weak_vars w) < 2 ^ 64 - 1"
  shows "consistent (step x w)"
proof (cases x)
  case (AssignShared i j)
  show ?thesis
    by (simp add: AssignShared assign_shared_def c Let_def destroy_shared_consistent
        swap_shared_consistent copy_shared_consistent [OF c rs] split: option.splits)
next
  case (MoveAssignShared i j)
  show ?thesis
    by (simp add: MoveAssignShared move_assign_shared_def c Let_def destroy_shared_consistent
        swap_shared_consistent move_shared_consistent [OF c] split: option.splits)
next
  case (ResetShared i)
  show ?thesis
    by (simp add: ResetShared reset_shared_def c Let_def destroy_shared_consistent
        swap_shared_consistent default_shared_consistent [OF c] split: option.splits)
next
  case (AssignWeak i j)
  show ?thesis
    by (simp add: AssignWeak assign_weak_def c Let_def destroy_weak_consistent
        swap_weak_consistent copy_weak_consistent [OF c rw] split: option.splits)
next
  case (MoveAssignWeak i j)
  show ?thesis
    by (simp add: MoveAssignWeak move_assign_weak_def c Let_def destroy_weak_consistent
        swap_weak_consistent move_weak_consistent [OF c] split: option.splits)
next
  case (LockWeak i)
  with nl show ?thesis by simp
qed (simp_all add: c rs rw SharedPtr_ptr_consistent SharedPtr_ptr_del_consistent
      SharedPtr_ptr_del_alloc_consistent AllocateShared_consistent MakeShared_consistent
      default_shared_consistent copy_shared_consistent [OF c rs] move_shared_consistent
      destroy_shared_consistent default_weak_consistent copy_weak_consistent [OF c rw]
      move_weak_consistent weak_from_shared_consistent [OF c rw] destroy_weak_consistent)

lemma init_consistent: "consistent init"
  by (simp add: consistent_def block_inv_def init_def owners_def observers_def refs_def
      destroyed_def deallocated_def)

lemma lock_free_Cons: "lock_free (x # xs) = (\<not> is_lock x \<and> lock_free xs)"
  by (simp add: lock_free_def)

lemma run_append: "run (xs @ ys) w = run ys (run xs w)"
  by (induction xs arbitrary: w) simp_all

lemma lock_free_append: "lock_free (xs @ ys) = (lock_free xs \<and> lock_free ys)"
  by (simp add: lock_free_def)

lemma run_consistent:
  "consistent w \<Longrightarrow> lock_free xs \<Longrightarrow>
   length (shared_vars w) + length xs < 2 ^ 64 \<Longrightarrow>
   length (weak_vars w) + length xs < 2 ^ 64 \<Longrightarrow>
   consistent (run xs w)"
proof (induction xs arbitrary: w)
  case Nil
  then show ?case by simp
next
  case (Cons x xs)
  from Cons.prems(2) have nl: "\<not> is_lock x" and lf: "lock_free xs"
    by (simp_all add: lock_free_Cons)
  from Cons.prems(3,4) have rs: "length (shared_vars w) < 2 ^ 64 - 1"
    and rw: "length (weak_vars w) < 2 ^ 64 - 1" by simp_all
  have c: "consistent (step x w)" by (rule step_consistent [OF Cons.prems(1) nl rs rw])
  have "length (shared_vars (step x w)) + length xs < 2 ^ 64"
    using length_shared_step [of x w] Cons.prems(3) by simp
  moreover have "length (weak_vars (step x w)) + length xs < 2 ^ 64"
    using length_weak_step [of x w] Cons.prems(4) by simp
  ultimately show ?case using Cons.IH [OF c lf] by simp
qed

lemma run_init_consistent:
  "lock_free xs \<Longrightarrow> length xs < 2 ^ 64 \<Longrightarrow> consistent (run xs init)"
  by (rule run_consistent [OF init_consistent]) (simp_all add: init_def)

lemma run_length_shared: "length (shared_vars (run xs w)) \<le> length (shared_vars w) + length xs"
proof (induction xs arbitrary: w)
  case Nil
  then show ?case by simp
next
  case (Cons x xs)
  from Cons.IH [of "step x w"] length_shared_step [of x w] show ?case by simp
qed

lemma run_length_weak: "length (weak_vars (run xs w)) \<le> length (weak_vars w) + length xs"
proof (induction xs arbitrary: w)
  case Nil
  then show ?case by simp
next
  case (Cons x xs)
  from Cons.IH [of "step x w"] length_weak_step [of x w] show ?case by simp
qed

section \<open>Only the last owner's destruction enters the first hook\<close>

text \<open>Blocks never leave the store, and only a constructor adds one.\<close>

lemma SharedPtr_dtor_dom: "(heap (snd (SharedPtr_dtor h m)) a = None) = (heap m a = None)"
  by (auto simp add: mem_defs split: option.splits payload.splits if_splits)

lemma WeakPtr_dtor_dom: "(heap (snd (WeakPtr_dtor h m)) a = None) = (heap m a = None)"
  by (auto simp add: mem_defs split: option.splits payload.splits if_splits)

lemma dom_prims:
  "(heap (mem (default_shared w)) a = None) = (heap (mem w) a = None)"
  "(heap (mem (copy_shared i w)) a = None) = (heap (mem w) a = None)"
  "(heap (mem (move_shared i w)) a = None) = (heap (mem w) a = None)"
  "(heap (mem (destroy_shared i w)) a = None) = (heap (mem w) a = None)"
  "(heap (mem (swap_shared i j w)) a = None) = (heap (mem w) a = None)"
  "(heap (mem (default_weak w)) a = None) = (heap (mem w) a = None)"
  "(heap (mem (copy_weak i w)) a = None) = (heap (mem w) a = None)"
  "(heap (mem (move_weak i w)) a = None) = (heap (mem w) a = None)"
  "(heap (mem (weak_from_shared i w)) a = None) = (heap (mem w) a = None)"
  "(heap (mem (destroy_weak i w)) a = None) = (heap (mem w) a = None)"
  "(heap (mem (swap_weak i j w)) a = None) = (heap (mem w) a = None)"
  by (auto simp: world_defs split_def Let_def SharedPtr_dtor_dom WeakPtr_dtor_dom
      SharedPtr_copy_def WeakPtr_copy_def WeakPtr_from_shared_def add_shared_simps add_weak_simps
      split: option.splits)

lemma owners_weak_prims:
  "owners a (default_weak w) = owners a w"
  "owners a (copy_weak i w) = owners a w"
  "owners a (move_weak i w) = owners a w"
  "owners a (weak_from_shared i w) = owners a w"
  "owners a (destroy_weak i w) = owners a w"
  "owners a (swap_weak i j w) = owners a w"
  by (auto simp: world_defs owners_def split_def Let_def split: option.splits)

lemma owners_default_shared: "owners a (default_shared w) = owners a w"
  by (simp add: default_shared_def owners_def refs_append refs_single points_to_def
      SharedPtr_default_def)

lemma owners_move_shared: "owners a (move_shared i w) = owners a w"
proof (cases "live_shared w i")
  case None
  then show ?thesis by (simp add: move_shared_def)
next
  case (Some h)
  note d = live_sharedD [OF Some]
  show ?thesis using Some d
    by (simp add: move_shared_def SharedPtr_move_def owners_def refs_move points_to_def)
qed

lemma owners_swap_shared: "owners a (swap_shared i j w) = owners a w"
proof (cases "live_shared w i")
  case None
  then show ?thesis by (simp add: swap_shared_def)
next
  case hi: (Some hi)
  show ?thesis
  proof (cases "live_shared w j")
    case None
    then show ?thesis using hi by (simp add: swap_shared_def)
  next
    case hj: (Some hj)
    note di = live_sharedD [OF hi] and dj = live_sharedD [OF hj]
    show ?thesis using hi hj di dj
      by (simp add: swap_shared_def SharedPtr_swap_def owners_def refs_swap points_to_def)
  qed
qed

lemma owners_copy_shared:
  "owners a w \<le> owners a (copy_shared i w) \<and> (owners a w = 0 \<longrightarrow> owners a (copy_shared i w) = 0)"
proof (cases "live_shared w i")
  case None
  then show ?thesis by (simp add: copy_shared_def)
next
  case (Some h)
  note d = live_sharedD [OF Some]
  have eq: "owners a (copy_shared i w) = owners a w + (if control_ptr h = Some a then 1 else 0)"
    using Some
    by (simp add: copy_shared_def SharedPtr_copy_def owners_def refs_append refs_single points_to_def)
  have "0 < owners a w" if "control_ptr h = Some a"
    unfolding owners_def using d that by (intro refs_pos [of i]) (simp_all add: points_to_def)
  with eq show ?thesis by auto
qed

lemma owners_destroy_shared:
  "owners a (destroy_shared i w) \<le> owners a w \<and> owners a w \<le> owners a (destroy_shared i w) + 1"
proof (cases "live_shared w i")
  case None
  then show ?thesis by (simp add: destroy_shared_def)
next
  case (Some h)
  from owners_drop [OF Some, of a "snd (SharedPtr_dtor h (mem w))"]
  show ?thesis unfolding destroy_shared_Some [OF Some] by (simp split: if_splits)
qed

lemma advances_same:
  "(heap (mem w') a = None) = (heap (mem w) a = None) \<Longrightarrow> owners a w' = owners a w \<Longrightarrow>
   advances w w' a"
  by (auto simp: advances_def)

lemma advances_construct:
  assumes c: "consistent w" and r: "builds (mem w) r"
  shows "advances w (construct_shared r w) a"
proof -
  have fresh: "heap (mem w) (next_addr (mem w)) = None" by (rule consistent_fresh [OF c]) simp
  from r [unfolded builds_def] show ?thesis
  proof
    assume "\<exists>e m'. r = (Inl e, m') \<and> heap m' = heap (mem w)"
    thus ?thesis by (auto simp add: advances_def construct_shared_def owners_def)
  next
    assume "\<exists>h m'. r = (Inr h, m') \<and> control_ptr h = Some (next_addr (mem w)) \<and>
         heap m' (next_addr (mem w)) \<noteq> None \<and>
         (\<forall>a. a \<noteq> next_addr (mem w) \<longrightarrow> heap m' a = heap (mem w) a)"
    then obtain h m' where r': "r = (Inr h, m')" "control_ptr h = Some (next_addr (mem w))"
      "heap m' (next_addr (mem w)) \<noteq> None"
      "\<And>a. a \<noteq> next_addr (mem w) \<Longrightarrow> heap m' a = heap (mem w) a" by blast
    show ?thesis
    proof (cases "a = next_addr (mem w)")
      case True
      thus ?thesis using fresh r'(1,2,3)
        by (simp add: advances_def construct_shared_def owners_def refs_append refs_single
            points_to_def)
    next
      case False
      hence ne: "next_addr (mem w) \<noteq> a" by simp
      show ?thesis using r'(1,2) r'(4) [OF False] ne
        by (auto simp add: advances_def construct_shared_def owners_def refs_append refs_single
            points_to_def)
    qed
  qed
qed

lemma builds_SharedPtr_ptr: "builds m (SharedPtr_ptr ok p m)"
  by (cases ok) (simp_all add: builds_def ctor_defs)

lemma builds_SharedPtr_ptr_del: "builds m (SharedPtr_ptr_del env p d m)"
  by (cases env) (simp_all add: builds_def ctor_defs)

lemma builds_SharedPtr_ptr_del_alloc: "builds m (SharedPtr_ptr_del_alloc env p d al m)"
  by (cases env) (simp_all add: builds_def ctor_defs)

lemma builds_AllocateShared: "builds m (AllocateShared ok ctor al args m)"
  by (cases ok; cases "ctor args") (simp_all add: builds_def ctor_defs)

lemma builds_MakeShared: "builds m (MakeShared ok ctor args m)"
  unfolding MakeShared_def by (rule builds_AllocateShared)


lemma advances_composite:
  assumes d1: "\<And>a. (heap (mem w1) a = None) = (heap (mem w) a = None)"
    and o1: "owners a w \<le> owners a w1 \<and> (owners a w = 0 \<longrightarrow> owners a w1 = 0)"
  shows "advances w (destroy_shared k (swap_shared k i w1)) a"
  using d1 [of a] o1 owners_destroy_shared [of a k "swap_shared k i w1"]
  by (auto simp: advances_def dom_prims owners_swap_shared)

lemma step_advances:
  assumes c: "consistent w" and nl: "\<not> is_lock x"
  shows "advances w (step x w) a"
proof (cases x)
  case (NewShared ok p)
  show ?thesis unfolding NewShared step.simps
    by (rule advances_construct [OF c]) (simp add: builds_SharedPtr_ptr builds_SharedPtr_ptr_del builds_SharedPtr_ptr_del_alloc builds_AllocateShared builds_MakeShared)
next
  case (NewSharedDel env p d)
  show ?thesis unfolding NewSharedDel step.simps
    by (rule advances_construct [OF c]) (simp add: builds_SharedPtr_ptr builds_SharedPtr_ptr_del builds_SharedPtr_ptr_del_alloc builds_AllocateShared builds_MakeShared)
next
  case (NewSharedDelAlloc env p d al)
  show ?thesis unfolding NewSharedDelAlloc step.simps
    by (rule advances_construct [OF c]) (simp add: builds_SharedPtr_ptr builds_SharedPtr_ptr_del builds_SharedPtr_ptr_del_alloc builds_AllocateShared builds_MakeShared)
next
  case (MakeSharedOp ok r)
  show ?thesis unfolding MakeSharedOp step.simps
    by (rule advances_construct [OF c]) (simp add: builds_SharedPtr_ptr builds_SharedPtr_ptr_del builds_SharedPtr_ptr_del_alloc builds_AllocateShared builds_MakeShared)
next
  case (AllocateSharedOp ok al r)
  show ?thesis unfolding AllocateSharedOp step.simps
    by (rule advances_construct [OF c]) (simp add: builds_SharedPtr_ptr builds_SharedPtr_ptr_del builds_SharedPtr_ptr_del_alloc builds_AllocateShared builds_MakeShared)
next
  case DefaultShared
  show ?thesis by (simp add: DefaultShared advances_same dom_prims owners_default_shared)
next
  case (CopyShared i)
  show ?thesis using owners_copy_shared [of a w i]
    by (auto simp: CopyShared advances_def dom_prims)
next
  case (MoveShared i)
  show ?thesis by (simp add: MoveShared advances_same dom_prims owners_move_shared)
next
  case (DestroyShared i)
  show ?thesis using owners_destroy_shared [of a i w]
    by (auto simp: DestroyShared advances_def dom_prims)
next
  case (AssignShared i j)
  show ?thesis
    by (auto simp: AssignShared assign_shared_def Let_def advances_same
        intro!: advances_composite dom_prims owners_copy_shared split: option.splits)
next
  case (MoveAssignShared i j)
  show ?thesis
    by (auto simp: MoveAssignShared move_assign_shared_def Let_def advances_same
        owners_move_shared intro!: advances_composite dom_prims split: option.splits)
next
  case (ResetShared i)
  show ?thesis
    by (auto simp: ResetShared reset_shared_def Let_def advances_same
        owners_default_shared intro!: advances_composite dom_prims split: option.splits)
next
  case DefaultWeak
  show ?thesis by (simp add: DefaultWeak advances_same dom_prims owners_weak_prims)
next
  case (CopyWeak i)
  show ?thesis by (simp add: CopyWeak advances_same dom_prims owners_weak_prims)
next
  case (MoveWeak i)
  show ?thesis by (simp add: MoveWeak advances_same dom_prims owners_weak_prims)
next
  case (WeakFromShared i)
  show ?thesis by (simp add: WeakFromShared advances_same dom_prims owners_weak_prims)
next
  case (DestroyWeak i)
  show ?thesis by (simp add: DestroyWeak advances_same dom_prims owners_weak_prims)
next
  case (AssignWeak i j)
  show ?thesis
    by (simp add: AssignWeak assign_weak_def Let_def advances_same dom_prims owners_weak_prims
        split: option.splits)
next
  case (MoveAssignWeak i j)
  show ?thesis
    by (simp add: MoveAssignWeak move_assign_weak_def Let_def advances_same dom_prims
        owners_weak_prims split: option.splits)
next
  case (LockWeak i)
  with nl show ?thesis by simp
qed

lemma word_eq_one_iff: "((x::size_t) = 1) = (unat x = 1)"
  using unat_one_iff [of x] by simp

lemma word_eq_zero_iff: "((x::size_t) = 0) = (unat x = 0)"
  by (simp add: unat_eq_0)

text \<open>
  Without \<^verbatim>\<open>lock\<close>, after every operation: the first hook of a block has been
  entered once if the block has no live owner and never otherwise; the operation enters
  it exactly when it takes the strong count from 1 to 0.
\<close>

lemma hook_entered_once_with_last_owner:
  assumes lf: "lock_free (xs @ [x])" and len: "length (xs @ [x]) < 2 ^ 64"
    and w: "w = run xs init" and w': "w' = step x w"
  shows "destroyed a w' = (if heap (mem w') a \<noteq> None \<and> owners a w' = 0 then 1 else 0)
       \<and> destroyed a w' = destroyed a w +
            (if use_count_cb a (mem w) = 1 \<and> use_count_cb a (mem w') = 0 then 1 else 0)
       \<and> (destroyed a w < destroyed a w') = (0 < owners a w \<and> owners a w' = 0)"
proof -
  from lf have lf1: "lock_free xs" and nl: "\<not> is_lock x"
    by (simp_all add: lock_free_append lock_free_Cons)
  from len have len1: "length xs < 2 ^ 64" by simp
  have c: "consistent w" unfolding w by (rule run_init_consistent [OF lf1 len1])
  have "w' = run (xs @ [x]) init" by (simp add: w' w run_append)
  hence c': "consistent w'" using run_init_consistent [OF lf len] by simp
  have adv: "advances w w' a" unfolding w' by (rule step_advances [OF c nl])
  note b = consistent_block [OF c, of a] and b' = consistent_block [OF c', of a]
  show ?thesis
  proof (cases "heap (mem w) a")
    case None
    note old = None
    show ?thesis
    proof (cases "heap (mem w') a")
      case None
      with old b b' show ?thesis by (simp add: block_inv_def use_count_cb_def)
    next
      case (Some b2)
      with old adv have "0 < owners a w'" by (simp add: advances_def)
      with old Some b b' show ?thesis by (simp add: block_inv_def use_count_cb_def)
    qed
  next
    case (Some b1)
    with adv obtain b2 where new: "heap (mem w') a = Some b2" by (auto simp: advances_def)
    from adv Some have le: "owners a w \<le> owners a w' + 1"
      and keep: "0 < owners a w \<or> owners a w' = 0" by (simp_all add: advances_def)
    from b Some have i1: "unat (shared_owners b1) = owners a w"
      "destroyed a w = (if owners a w = 0 then 1 else 0)" by (simp_all add: block_inv_def)
    from b' new have i2: "unat (shared_owners b2) = owners a w'"
      "destroyed a w' = (if owners a w' = 0 then 1 else 0)" by (simp_all add: block_inv_def)
    show ?thesis using Some new le keep i1 i2
      by (auto simp add: use_count_cb_def word_eq_one_iff word_eq_zero_iff)
  qed
qed

section \<open>Every entry into the first hook destroys the managed object\<close>

lemma take_prefix_append: "take (length r) xs = r \<Longrightarrow> take (length r) (xs @ ys) = r"
proof -
  assume t: "take (length r) xs = r"
  hence "length (take (length r) xs) = length r" by simp
  hence "length r \<le> length xs" by simp
  thus ?thesis using t by simp
qed

lemma followed_append:
  "followed mk rest xs \<Longrightarrow> followed mk rest ys \<Longrightarrow> followed mk rest (xs @ ys)"
proof (induction xs)
  case Nil
  then show ?case by simp
next
  case (Cons e xs)
  from Cons.prems(1) have tl: "followed mk rest xs"
    and hd: "e = mk \<Longrightarrow> take (length rest) xs = rest" by (simp_all split: if_splits)
  have "take (length rest) (xs @ ys) = rest" if "e = mk"
    by (rule take_prefix_append [OF hd [OF that]])
  with Cons.IH [OF tl Cons.prems(2)] show ?case by simp
qed

lemma followed_no_marker: "mk \<notin> set xs \<Longrightarrow> followed mk rest xs"
  by (induction xs) auto

lemma hook_runs_followed: "followed mk rest xs \<Longrightarrow> hook_runs mk rest xs = count_list xs mk"
  by (induction xs) auto

lemma count_zero_iff: "(count_list xs x = 0) = (x \<notin> set xs)"
  by (simp add: count_list_0_iff)

lemma hookedI:
  assumes "\<And>a b. heap m a = Some b \<Longrightarrow>
             followed (ZeroShared a) (destruction_events a (payload b)) (trace m)"
    and "\<And>a b. heap m a = Some b \<Longrightarrow> is_emplacer (payload b) \<Longrightarrow>
             element_gone (payload b) = (ZeroShared a \<in> set (trace m))"
  shows "hooked m"
  using assms by (simp add: hooked_def)

lemma hookedD:
  assumes "hooked m" and "heap m a = Some b"
  shows "followed (ZeroShared a) (destruction_events a (payload b)) (trace m)"
    and "is_emplacer (payload b) \<Longrightarrow> element_gone (payload b) = (ZeroShared a \<in> set (trace m))"
  using assms by (simp_all add: hooked_def)

text \<open>The parts the member functions are made of keep every hook entry complete.\<close>

lemma hooked_counters:
  assumes "hooked m" and "\<And>b. payload (f b) = payload b"
  shows "hooked (update_block c f m)"
  using assms by (auto simp: hooked_def update_block_def split: option.splits)

lemma hooked_add_shared: "hooked m \<Longrightarrow> hooked (add_shared c m)"
  unfolding add_shared_def by (rule hooked_counters) simp_all

lemma hooked_add_weak: "hooked m \<Longrightarrow> hooked (add_weak c m)"
  unfolding add_weak_def by (rule hooked_counters) simp_all

lemma hooked_decrement_shared: "hooked m \<Longrightarrow> hooked (decrement_shared c m)"
  unfolding decrement_shared_def by (rule hooked_counters) simp_all

lemma hooked_decrement_weak: "hooked m \<Longrightarrow> hooked (decrement_weak c m)"
  unfolding decrement_weak_def by (rule hooked_counters) simp_all

lemma hooked_log:
  assumes h: "hooked m" and n: "\<And>a. ZeroShared a \<notin> set es"
  shows "hooked (log es m)"
proof (rule hookedI)
  fix a b assume "heap (log es m) a = Some b"
  hence hb: "heap m a = Some b" by (simp add: log_def)
  from hookedD(1) [OF h hb] followed_no_marker [OF n]
  show "followed (ZeroShared a) (destruction_events a (payload b)) (trace (log es m))"
    by (simp add: log_def followed_append)
  assume "is_emplacer (payload b)"
  from hookedD(2) [OF h hb this] n
  show "element_gone (payload b) = (ZeroShared a \<in> set (trace (log es m)))"
    by (simp add: log_def)
qed

lemma hooked_zero_shared_and_weak: "hooked m \<Longrightarrow> hooked (zero_shared_and_weak c m)"
  by (auto simp: zero_shared_and_weak_def intro!: hooked_log split: option.splits payload.splits)

lemma hooked_release_weak: "hooked m \<Longrightarrow> hooked (release_weak c m)"
  by (simp add: release_weak_def hooked_zero_shared_and_weak split: option.splits)

lemma hooked_zero_shared:
  assumes h: "hooked m"
  shows "hooked (zero_shared c m)"
proof (cases "heap m c")
  case None
  then show ?thesis using h by (simp add: zero_shared_def)
next
  case (Some bc)
  show ?thesis
  proof (cases "payload bc")
    case (PointerBlock p d al)
    let ?es = "[ZeroShared c, InvokeDeleter d p, DestroyDeleter c]"
    have eq: "zero_shared c m = m\<lparr>trace := trace m @ ?es\<rparr>"
      using Some PointerBlock by (simp add: zero_shared_def log_def)
    show ?thesis unfolding eq
    proof (rule hookedI)
      fix a b assume b: "heap (m\<lparr>trace := trace m @ ?es\<rparr>) a = Some b"
      hence hb: "heap m a = Some b" by simp
      have "followed (ZeroShared a) (destruction_events a (payload b)) ?es"
        using hb Some PointerBlock by (cases "a = c") auto
      with hookedD(1) [OF h hb]
      show "followed (ZeroShared a) (destruction_events a (payload b))
              (trace (m\<lparr>trace := trace m @ ?es\<rparr>))"
        by (simp add: followed_append)
      assume e: "is_emplacer (payload b)"
      hence "a \<noteq> c" using hb Some PointerBlock by auto
      with hookedD(2) [OF h hb e]
      show "element_gone (payload b) = (ZeroShared a \<in> set (trace (m\<lparr>trace := trace m @ ?es\<rparr>)))"
        by simp
    qed
  next
    case (EmplacerBlock al v)
    let ?es = "[ZeroShared c, DestroyElem c]"
    let ?bc = "bc\<lparr>payload := EmplacerBlock al None\<rparr>"
    have eq: "zero_shared c m = m\<lparr>heap := (heap m)(c \<mapsto> ?bc), trace := trace m @ ?es\<rparr>"
      using Some EmplacerBlock by (simp add: zero_shared_def log_def update_block_def)
    show ?thesis unfolding eq
    proof (rule hookedI)
      fix a b
      assume b: "heap (m\<lparr>heap := (heap m)(c \<mapsto> ?bc), trace := trace m @ ?es\<rparr>) a = Some b"
      show "followed (ZeroShared a) (destruction_events a (payload b))
              (trace (m\<lparr>heap := (heap m)(c \<mapsto> ?bc), trace := trace m @ ?es\<rparr>))"
      proof (cases "a = c")
        case True
        with b have pb: "payload b = EmplacerBlock al None" by auto
        from hookedD(1) [OF h Some] EmplacerBlock
        have "followed (ZeroShared c) [DestroyElem c] (trace m)" by simp
        thus ?thesis using True pb by (simp add: followed_append)
      next
        case False
        with b have hb: "heap m a = Some b" by simp
        have "followed (ZeroShared a) (destruction_events a (payload b)) ?es"
          using False by simp
        with hookedD(1) [OF h hb] show ?thesis by (simp add: followed_append)
      qed
      assume e: "is_emplacer (payload b)"
      show "element_gone (payload b) =
              (ZeroShared a \<in> set (trace (m\<lparr>heap := (heap m)(c \<mapsto> ?bc), trace := trace m @ ?es\<rparr>)))"
      proof (cases "a = c")
        case True
        with b show ?thesis by auto
      next
        case False
        with b have hb: "heap m a = Some b" by simp
        from hookedD(2) [OF h hb e] False show ?thesis by simp
      qed
    qed
  qed
qed

lemma hooked_release_shared: "hooked m \<Longrightarrow> hooked (release_shared c m)"
  by (simp add: release_shared_def hooked_zero_shared)

lemma hooked_SharedPtr_dtor: "hooked m \<Longrightarrow> hooked (snd (SharedPtr_dtor h m))"
  by (simp add: SharedPtr_dtor_def Let_def hooked_release_weak hooked_release_shared
      hooked_decrement_shared split: option.splits)

lemma hooked_WeakPtr_dtor: "hooked m \<Longrightarrow> hooked (snd (WeakPtr_dtor h m))"
  by (simp add: WeakPtr_dtor_def Let_def hooked_release_weak hooked_decrement_weak
      split: option.splits)

lemma hooked_take_addr: "hooked (take_addr m) = hooked m"
  by (simp add: hooked_def take_addr_def)

lemma hooked_place_block:
  assumes h: "hooked m" and n: "ZeroShared a \<notin> set (trace m)" and g: "\<not> element_gone pl"
  shows "hooked (place_block a pl m)"
proof (rule hookedI)
  fix c b assume b: "heap (place_block a pl m) c = Some b"
  show "followed (ZeroShared c) (destruction_events c (payload b)) (trace (place_block a pl m))"
  proof (cases "c = a")
    case True
    thus ?thesis using n by (simp add: place_block_def followed_no_marker)
  next
    case False
    with b have "heap m c = Some b" by (simp add: place_block_def)
    from hookedD(1) [OF h this] show ?thesis by (simp add: place_block_def)
  qed
  assume e: "is_emplacer (payload b)"
  show "element_gone (payload b) = (ZeroShared c \<in> set (trace (place_block a pl m)))"
  proof (cases "c = a")
    case True
    thus ?thesis using n g b by (auto simp add: place_block_def)
  next
    case False
    with b have "heap m c = Some b" by (simp add: place_block_def)
    from hookedD(2) [OF h this e] show ?thesis by (simp add: place_block_def)
  qed
qed

lemma hooked_new_block:
  assumes h: "hooked m" and n: "ZeroShared (next_addr m) \<notin> set (trace m)"
    and g: "\<not> element_gone pl" and es: "\<And>a. ZeroShared a \<notin> set es"
  shows "hooked (add_shared (next_addr m) (place_block (next_addr m) pl (log es (take_addr m))))"
proof -
  have 1: "hooked (log es (take_addr m))"
    by (rule hooked_log) (simp_all add: hooked_take_addr h es)
  have 2: "ZeroShared (next_addr m) \<notin> set (trace (log es (take_addr m)))"
    using n es by (simp add: log_def take_addr_def)
  show ?thesis by (rule hooked_add_shared, rule hooked_place_block [OF 1 2 g])
qed

lemma hooked_failed:
  assumes h: "hooked m" and es: "\<And>a. ZeroShared a \<notin> set es"
  shows "hooked (log es (take_addr m))"
  by (rule hooked_log) (simp_all add: hooked_take_addr h es)

lemma hooked_SharedPtr_ptr:
  "hooked m \<Longrightarrow> ZeroShared (next_addr m) \<notin> set (trace m) \<Longrightarrow> hooked (snd (SharedPtr_ptr ok p m))"
  by (simp add: SharedPtr_ptr_def Let_def hooked_new_block)

lemma hooked_SharedPtr_ptr_del:
  "hooked m \<Longrightarrow> ZeroShared (next_addr m) \<notin> set (trace m) \<Longrightarrow>
   hooked (snd (SharedPtr_ptr_del env p d m))"
  by (cases env) (simp_all add: SharedPtr_ptr_del_def Let_def hooked_new_block hooked_log hooked_failed)

lemma hooked_SharedPtr_ptr_del_alloc:
  "hooked m \<Longrightarrow> ZeroShared (next_addr m) \<notin> set (trace m) \<Longrightarrow>
   hooked (snd (SharedPtr_ptr_del_alloc env p d al m))"
  by (cases env)
     (simp_all add: SharedPtr_ptr_del_alloc_def Let_def hooked_new_block hooked_log hooked_failed)

lemma hooked_AllocateShared:
  assumes "hooked m" and "ZeroShared (next_addr m) \<notin> set (trace m)"
  shows "hooked (snd (AllocateShared ok ctor al args m))"
proof (cases ok)
  case False
  then show ?thesis using assms by (simp add: AllocateShared_def)
next
  case True
  show ?thesis
  proof (cases "ctor args")
    case None
    show ?thesis using True None assms
      by (simp add: AllocateShared_def SharedPtrEmplacer_ctor_def Let_def hooked_log hooked_failed)
  next
    case (Some v)
    show ?thesis using True Some assms
      by (simp add: AllocateShared_def SharedPtrEmplacer_ctor_def create_with_control_block_def
          Let_def hooked_new_block)
  qed
qed

lemma hooked_MakeShared:
  "hooked m \<Longrightarrow> ZeroShared (next_addr m) \<notin> set (trace m) \<Longrightarrow>
   hooked (snd (MakeShared ok ctor args m))"
  unfolding MakeShared_def by (rule hooked_AllocateShared)

lemma mem_construct_shared: "mem (construct_shared r w) = snd r"
  by (cases r; cases "fst r") (simp_all add: construct_shared_def)

lemma hooked_prims:
  assumes "hooked (mem w)"
  shows "hooked (mem (default_shared w))" "hooked (mem (copy_shared i w))"
    "hooked (mem (move_shared i w))" "hooked (mem (destroy_shared i w))"
    "hooked (mem (swap_shared i j w))" "hooked (mem (default_weak w))"
    "hooked (mem (copy_weak i w))" "hooked (mem (move_weak i w))"
    "hooked (mem (weak_from_shared i w))" "hooked (mem (destroy_weak i w))"
    "hooked (mem (swap_weak i j w))" "hooked (mem (lock_weak i w))"
  using assms
  by (auto simp: world_defs split_def Let_def SharedPtr_copy_def WeakPtr_copy_def
      WeakPtr_from_shared_def hooked_add_shared hooked_add_weak hooked_SharedPtr_dtor
      hooked_WeakPtr_dtor split: option.splits)

lemma fresh_unmarked:
  assumes "consistent w"
  shows "ZeroShared (next_addr (mem w)) \<notin> set (trace (mem w))"
proof -
  have "heap (mem w) (next_addr (mem w)) = None" by (rule consistent_fresh [OF assms]) simp
  with consistent_block [OF assms, of "next_addr (mem w)"]
  have "destroyed (next_addr (mem w)) w = 0" by (simp add: block_inv_def)
  thus ?thesis by (simp add: destroyed_def count_zero_iff)
qed

lemma step_hooked:
  assumes c: "consistent w" and h: "hooked (mem w)"
  shows "hooked (mem (step x w))"
proof (cases x)
  case (NewShared ok p)
  show ?thesis unfolding NewShared step.simps mem_construct_shared
    by (rule hooked_SharedPtr_ptr [OF h fresh_unmarked [OF c]])
next
  case (NewSharedDel env p d)
  show ?thesis unfolding NewSharedDel step.simps mem_construct_shared
    by (rule hooked_SharedPtr_ptr_del [OF h fresh_unmarked [OF c]])
next
  case (NewSharedDelAlloc env p d al)
  show ?thesis unfolding NewSharedDelAlloc step.simps mem_construct_shared
    by (rule hooked_SharedPtr_ptr_del_alloc [OF h fresh_unmarked [OF c]])
next
  case (MakeSharedOp ok r)
  show ?thesis unfolding MakeSharedOp step.simps mem_construct_shared
    by (rule hooked_MakeShared [OF h fresh_unmarked [OF c]])
next
  case (AllocateSharedOp ok al r)
  show ?thesis unfolding AllocateSharedOp step.simps mem_construct_shared
    by (rule hooked_AllocateShared [OF h fresh_unmarked [OF c]])
qed (simp_all add: composite_defs Let_def hooked_prims h split: option.splits)

lemma run_hooked:
  "consistent w \<Longrightarrow> hooked (mem w) \<Longrightarrow> lock_free xs \<Longrightarrow>
   length (shared_vars w) + length xs < 2 ^ 64 \<Longrightarrow>
   length (weak_vars w) + length xs < 2 ^ 64 \<Longrightarrow>
   hooked (mem (run xs w))"
proof (induction xs arbitrary: w)
  case Nil
  then show ?case by simp
next
  case (Cons x xs)
  from Cons.prems(3) have nl: "\<not> is_lock x" and lf: "lock_free xs"
    by (simp_all add: lock_free_Cons)
  from Cons.prems(4,5) have rs: "length (shared_vars w) < 2 ^ 64 - 1"
    and rw: "length (weak_vars w) < 2 ^ 64 - 1" by simp_all
  have c: "consistent (step x w)" by (rule step_consistent [OF Cons.prems(1) nl rs rw])
  have h: "hooked (mem (step x w))" by (rule step_hooked [OF Cons.prems(1,2)])
  have "length (shared_vars (step x w)) + length xs < 2 ^ 64"
    using length_shared_step [of x w] Cons.prems(4) by simp
  moreover have "length (weak_vars (step x w)) + length xs < 2 ^ 64"
    using length_weak_step [of x w] Cons.prems(5) by simp
  ultimately show ?case using Cons.IH [OF c h lf] by simp
qed

lemma run_init_hooked:
  "lock_free xs \<Longrightarrow> length xs < 2 ^ 64 \<Longrightarrow> hooked (mem (run xs init))"
  by (rule run_hooked [OF init_consistent]) (simp_all add: init_def hooked_def)

lemma destructions_destroyed:
  assumes c: "consistent w" and h: "hooked (mem w)"
  shows "destructions a w = destroyed a w"
proof (cases "heap (mem w) a")
  case None
  with consistent_block [OF c, of a] show ?thesis
    by (simp add: destructions_def block_inv_def)
next
  case (Some b)
  from hookedD(1) [OF h Some] show ?thesis
    by (simp add: destructions_def destroyed_def Some hook_runs_followed)
qed

text \<open>
  Without \<^verbatim>\<open>lock\<close>: the first hook of a block has called the deleter on the managed
  pointer (or destroyed the element in place) once if the block has no live owner and
  never otherwise; a step does so exactly when it takes the strong count from 1 to 0; and
  the element of a combined block is gone exactly when the block has no live owner.
\<close>

lemma object_destroyed_once_without_lock:
  assumes lf: "lock_free (xs @ [x])" and len: "length (xs @ [x]) < 2 ^ 64"
    and w: "w = run xs init" and w': "w' = step x w"
  shows "destructions a w' = (if heap (mem w') a \<noteq> None \<and> owners a w' = 0 then 1 else 0)
       \<and> destructions a w' = destructions a w +
            (if use_count_cb a (mem w) = 1 \<and> use_count_cb a (mem w') = 0 then 1 else 0)
       \<and> (destructions a w < destructions a w') = (0 < owners a w \<and> owners a w' = 0)
       \<and> (\<forall>b. heap (mem w') a = Some b \<longrightarrow> is_emplacer (payload b) \<longrightarrow>
             element_gone (payload b) = (owners a w' = 0))"
proof -
  from lf have lf1: "lock_free xs" by (simp add: lock_free_append)
  from len have len1: "length xs < 2 ^ 64" by simp
  have c: "consistent w" unfolding w by (rule run_init_consistent [OF lf1 len1])
  have h: "hooked (mem w)" unfolding w by (rule run_init_hooked [OF lf1 len1])
  have eq: "w' = run (xs @ [x]) init" by (simp add: w' w run_append)
  have c': "consistent w'" unfolding eq by (rule run_init_consistent [OF lf len])
  have h': "hooked (mem w')" unfolding eq by (rule run_init_hooked [OF lf len])
  note d = destructions_destroyed [OF c h, of a] and d' = destructions_destroyed [OF c' h', of a]
  have gone: "element_gone (payload b) = (owners a w' = 0)"
    if b: "heap (mem w') a = Some b" and e: "is_emplacer (payload b)" for b
  proof -
    from consistent_block [OF c', of a] b
    have "destroyed a w' = (if owners a w' = 0 then 1 else 0)" by (simp add: block_inv_def)
    hence "(ZeroShared a \<in> set (trace (mem w'))) = (owners a w' = 0)"
      using count_zero_iff [of "trace (mem w')" "ZeroShared a"]
      by (auto simp: destroyed_def split: if_splits)
    with hookedD(2) [OF h' b e] show ?thesis by simp
  qed
  from hook_entered_once_with_last_owner [OF lf len w w', of a] gone
  show ?thesis unfolding d d' by blast
qed

section \<open>Programs without lock: deallocation and expiry\<close>

lemma block_deallocated_once_without_lock:
  assumes "lock_free xs" and "length xs < 2 ^ 64"
  shows "deallocated a (run xs init) =
     (if heap (mem (run xs init)) a \<noteq> None \<and> owners a (run xs init) = 0
         \<and> observers a (run xs init) = 0 then 1 else 0)"
  using consistent_block [OF run_init_consistent [OF assms], of a]
  by (cases "heap (mem (run xs init)) a") (simp_all add: block_inv_def)

lemma expired_without_owners:
  assumes "lock_free xs" and "length xs < 2 ^ 64"
    and "live_weak (run xs init) j = Some h" and "control_ptr h = Some a"
  shows "expired h (mem (run xs init)) = (owners a (run xs init) = 0)"
proof -
  have c: "consistent (run xs init)" by (rule run_init_consistent [OF assms(1,2)])
  from observer_block [OF consistent_block [OF c] assms(3,4)]
  show ?thesis by (auto simp: expired_def use_count_cb_def assms(4) word_eq_zero_iff)
qed

text \<open>
  \<^verbatim>\<open>expired()\<close> read on a control block that is in the store: true exactly when the
  control-block pointer is null or the block's strong count is 0.
\<close>

lemma expired_iff:
  assumes "valid_handle h m"
  shows "expired h m =
     (control_ptr h = None \<or>
      (\<exists>a b. control_ptr h = Some a \<and> heap m a = Some b \<and> shared_owners b = 0))"
  using assms
  by (auto simp: expired_def valid_handle_def use_count_cb_def split: option.splits)

section \<open>Self-assignment of a handle that its block counts\<close>

text \<open>
  Assigning an owning handle to itself, by copy or by move, leaves the handle, the store
  and the log as they were, when the handle is empty or counted in its block's strong
  count.
\<close>

lemma counted_self_assignment_changes_nothing:
  assumes "live_shared w i = Some h" and "counted_owner h (mem w)"
  shows "live_shared (assign_shared i i w) i = Some h
       \<and> mem (assign_shared i i w) = mem w
       \<and> use_count h (mem (assign_shared i i w)) = use_count h (mem w)
       \<and> trace (mem (assign_shared i i w)) = trace (mem w)
       \<and> live_shared (move_assign_shared i i w) i = Some h
       \<and> mem (move_assign_shared i i w) = mem w
       \<and> use_count h (mem (move_assign_shared i i w)) = use_count h (mem w)
       \<and> trace (mem (move_assign_shared i i w)) = trace (mem w)"
proof -
  from assms(1) have i: "i < length (shared_vars w)" and hi: "shared_vars w ! i = Some h"
    by (auto simp: live_shared_def split: if_splits)
  have mv: "live_shared (move_assign_shared i i w) i = Some h \<and> mem (move_assign_shared i i w) = mem w"
    using assms(1) i hi
    by (simp add: move_assign_shared_def move_shared_def swap_shared_def destroy_shared_def
        live_shared_def SharedPtr_move_def SharedPtr_swap_def SharedPtr_dtor_def Let_def
        nth_append nth_list_update)
  have cp: "live_shared (assign_shared i i w) i = Some h \<and> mem (assign_shared i i w) = mem w"
  proof (cases "control_ptr h")
    case None
    show ?thesis using assms(1) i hi None
      by (simp add: assign_shared_def copy_shared_def swap_shared_def destroy_shared_def
        live_shared_def SharedPtr_copy_def SharedPtr_swap_def SharedPtr_dtor_def Let_def
        nth_append nth_list_update)
  next
    case (Some a)
    with assms(2) obtain b where b: "heap (mem w) a = Some b" "shared_owners b \<noteq> 0"
      "shared_owners b + 1 \<noteq> 0"
      by (auto simp: counted_owner_def split: option.splits)
    have upd: "(heap (mem w))(a \<mapsto> b) = heap (mem w)" using b(1) by (rule fun_upd_idem)
    have pos: "0 < shared_owners b + 1" using b(3) by (simp add: word_pos_iff)
    show ?thesis using assms(1) i hi Some b pos upd
      by (simp add: assign_shared_def copy_shared_def swap_shared_def destroy_shared_def
        live_shared_def SharedPtr_copy_def SharedPtr_swap_def SharedPtr_dtor_def Let_def
        nth_append nth_list_update add_shared_def decrement_shared_def release_shared_def
        use_count_cb_def update_block_def)
  qed
  from mv cp show ?thesis by simp
qed

section \<open>The claims\<close>

text \<open>
  C1. \<^verbatim>\<open>lock()\<close> on a handle that is not expired should add one to the strong
  count, and on an expired handle it should return an empty handle. The code does
  neither. With one owner and one observer, the handle that \<^verbatim>\<open>lock\<close> returns is a
  second live owner of block 0, and the strong count is still 1. After the only owner
  is destroyed the observer is expired, and \<^verbatim>\<open>lock\<close> still returns a handle with the
  control block and the object's address.
\<close>

theorem lock_skips_the_strong_count:
  "live_shared (run [NewShared True (Some (External 7)), WeakFromShared 0, LockWeak 0]
      (init :: nat world)) 1 = Some \<lparr>element_ptr = Some (External 7), control_ptr = Some 0\<rparr>
   \<and> owners 0 (run [NewShared True (Some (External 7)), WeakFromShared 0, LockWeak 0]
      (init :: nat world)) = 2
   \<and> use_count_cb 0 (mem (run [NewShared True (Some (External 7)), WeakFromShared 0, LockWeak 0]
      (init :: nat world))) = 1
   \<and> expired \<lparr>element_ptr = Some (External 7), control_ptr = Some 0\<rparr>
       (mem (run [NewShared True (Some (External 7)), WeakFromShared 0, DestroyShared 0]
          (init :: nat world)))
   \<and> live_weak (run [NewShared True (Some (External 7)), WeakFromShared 0, DestroyShared 0]
          (init :: nat world)) 0 = Some \<lparr>element_ptr = Some (External 7), control_ptr = Some 0\<rparr>
   \<and> lock \<lparr>element_ptr = Some (External 7), control_ptr = Some 0\<rparr>
       = \<lparr>element_ptr = Some (External 7), control_ptr = Some 0\<rparr>"
  by code_simp

text \<open>
  C2. The managed object should be destroyed exactly once, when the last live owning
  handle of its block is destroyed or reset. An owning handle constructed by
  \<^verbatim>\<open>lock\<close> breaks both: with one owner, one observer and a locked handle,
  destroying the locked handle takes the strong count from 1 to 0 and calls the deleter
  while the first owner in variable 0 is alive, and destroying that owner calls the
  deleter on the same object a second time.
\<close>

theorem object_destroyed_twice_through_lock:
  "live_shared (run [NewSharedDel Succeeds (Some (External 7)) (CustomDeleter 1), WeakFromShared 0,
      LockWeak 0, DestroyShared 1] (init :: nat world)) 0
     = Some \<lparr>element_ptr = Some (External 7), control_ptr = Some 0\<rparr>
   \<and> owners 0 (run [NewSharedDel Succeeds (Some (External 7)) (CustomDeleter 1), WeakFromShared 0,
      LockWeak 0, DestroyShared 1] (init :: nat world)) = 1
   \<and> trace (mem (run [NewSharedDel Succeeds (Some (External 7)) (CustomDeleter 1), WeakFromShared 0,
      LockWeak 0, DestroyShared 1] (init :: nat world)))
     = [OperatorNew 0, ZeroShared 0, InvokeDeleter (CustomDeleter 1) (Some (External 7)),
        DestroyDeleter 0]
   \<and> trace (mem (run [NewSharedDel Succeeds (Some (External 7)) (CustomDeleter 1), WeakFromShared 0,
      LockWeak 0, DestroyShared 1, DestroyShared 0] (init :: nat world)))
     = [OperatorNew 0, ZeroShared 0, InvokeDeleter (CustomDeleter 1) (Some (External 7)),
        DestroyDeleter 0, ZeroShared 0, InvokeDeleter (CustomDeleter 1) (Some (External 7)),
        DestroyDeleter 0]
   \<and> count_list (trace (mem (run [NewSharedDel Succeeds (Some (External 7)) (CustomDeleter 1),
      WeakFromShared 0, LockWeak 0, DestroyShared 1, DestroyShared 0] (init :: nat world))))
        (InvokeDeleter (CustomDeleter 1) (Some (External 7))) = 2"
  by code_simp

text \<open>
  C3. In a program that only constructs, copies, moves, assigns, resets and destroys
  handles (any operation but \<^verbatim>\<open>lock\<close>), at every point \<^verbatim>\<open>use_count()\<close> of a
  live owning handle with a control block is the number of live owning handles that
  reference that block. The bound on the program's length keeps the 64-bit counter from
  wrapping around.
\<close>

theorem use_count_counts_owners:
  assumes "lock_free xs" and "length xs < 2 ^ 64"
    and "live_shared (run xs init) i = Some h" and "control_ptr h = Some a"
  shows "unat (use_count h (mem (run xs init))) = owners a (run xs init)"
proof -
  have c: "consistent (run xs init)" by (rule run_init_consistent [OF assms(1,2)])
  from owner_block [OF consistent_block [OF c] assms(3,4)]
  show ?thesis by (auto simp: use_count_def use_count_cb_def assms(4))
qed

theorem use_count_counts_owners_witness:
  "lock_free [NewShared True (Some (External 7)), CopyShared 0, DestroyShared 0 :: nat operation]
   \<and> length [NewShared True (Some (External 7)), CopyShared 0, DestroyShared 0 :: nat operation]
       < 2 ^ 64
   \<and> live_shared
       (run [NewShared True (Some (External 7)), CopyShared 0, DestroyShared 0]
          (init :: nat world)) 1
       = Some \<lparr>element_ptr = Some (External 7), control_ptr = Some 0\<rparr>
   \<and> unat (use_count \<lparr>element_ptr = Some (External 7), control_ptr = Some 0\<rparr>
        (mem (run [NewShared True (Some (External 7)), CopyShared 0, DestroyShared 0]
           (init :: nat world))))
       = owners 0 (run [NewShared True (Some (External 7)), CopyShared 0, DestroyShared 0]
           (init :: nat world))
   \<and> owners 0 (run [NewShared True (Some (External 7)), CopyShared 0, DestroyShared 0]
           (init :: nat world)) = 1"
proof -
  let ?xs = "[NewShared True (Some (External 7)), CopyShared 0, DestroyShared 0 :: nat operation]"
  let ?h = "\<lparr>element_ptr = Some (External 7), control_ptr = Some (0::nat)\<rparr>"
  have lf: "lock_free ?xs" by code_simp
  have len: "length ?xs < 2 ^ 64" by simp
  have lv: "live_shared (run ?xs init) 1 = Some ?h" by code_simp
  have cp: "control_ptr ?h = Some 0" by simp
  have ow: "owners 0 (run ?xs init) = 1" by code_simp
  from use_count_counts_owners [OF lf len lv cp] lf len lv ow show ?thesis by simp
qed

text \<open>
  C4. With \<^verbatim>\<open>lock\<close> among the operations the control block is deallocated while
  an owning handle still references it: one owner, one observer, a handle from
  \<^verbatim>\<open>lock\<close>; then the first owner and the observer are destroyed. The second hook
  has run, and the locked handle in variable 1 is alive and points to block 0.
\<close>

theorem block_freed_under_a_locked_owner:
  "live_shared (run [NewShared True (Some (External 7)), WeakFromShared 0, LockWeak 0,
      DestroyShared 0, DestroyWeak 0] (init :: nat world)) 1
     = Some \<lparr>element_ptr = Some (External 7), control_ptr = Some 0\<rparr>
   \<and> owners 0 (run [NewShared True (Some (External 7)), WeakFromShared 0, LockWeak 0,
      DestroyShared 0, DestroyWeak 0] (init :: nat world)) = 1
   \<and> deallocated 0 (run [NewShared True (Some (External 7)), WeakFromShared 0, LockWeak 0,
      DestroyShared 0, DestroyWeak 0] (init :: nat world)) = 1
   \<and> trace (mem (run [NewShared True (Some (External 7)), WeakFromShared 0, LockWeak 0,
      DestroyShared 0, DestroyWeak 0] (init :: nat world)))
     = [OperatorNew 0, ZeroShared 0, InvokeDeleter DefaultDeleter (Some (External 7)),
        DestroyDeleter 0, ZeroSharedAndWeak 0, DestroyAllocator 0, Deallocate StdAllocator 0]"
  by code_simp

text \<open>
  C5. When the allocation of the control block fails, the constructor with a deleter
  and an allocator returns the exception and leaves the store and the log as they were:
  the deleter is not called. The constructor with a deleter alone calls it once.
\<close>

theorem allocator_form_leaks_on_failed_allocation:
  "SharedPtr_ptr_del_alloc AllocFails p d al m = (Inl BadAlloc, m)
   \<and> SharedPtr_ptr_del AllocFails p d m = (Inl BadAlloc, m\<lparr>trace := trace m @ [InvokeDeleter d p]\<rparr>)"
  by (simp add: SharedPtr_ptr_del_alloc_def SharedPtr_ptr_del_def log_def)

text \<open>
  C6. When the element's constructor throws, \<^verbatim>\<open>AllocateShared\<close> has allocated
  the block and destroyed the allocator stored in it, and returns the exception without
  deallocating the block.
\<close>

theorem factory_leaks_block_when_constructor_throws:
  "AllocateShared True (\<lambda>u. None) al args m =
     (Inl ConstructorThrew,
      m\<lparr>next_addr := Suc (next_addr m),
        trace := trace m @ [Allocate al (next_addr m), DestroyAllocator (next_addr m)]\<rparr>)"
  by (simp add: AllocateShared_def SharedPtrEmplacer_ctor_def take_addr_def log_def Let_def)

text \<open>
  C7. Once the strong count of a block has reached 0, every observing handle of the
  block should report expired, also when it outlives the object. After the only owner is
  destroyed the observer is expired; a handle from \<^verbatim>\<open>lock\<close> and a copy of it take
  the strong count back to 1, and the same observer is no longer expired, although the
  deleter has run and the object is gone.
\<close>

theorem observer_unexpired_after_destruction:
  "expired \<lparr>element_ptr = Some (External 7), control_ptr = Some 0\<rparr>
     (mem (run [NewShared True (Some (External 7)), WeakFromShared 0, DestroyShared 0]
        (init :: nat world))) = True
   \<and> live_weak (run [NewShared True (Some (External 7)), WeakFromShared 0, DestroyShared 0,
        LockWeak 0, CopyShared 1] (init :: nat world)) 0
     = Some \<lparr>element_ptr = Some (External 7), control_ptr = Some 0\<rparr>
   \<and> trace (mem (run [NewShared True (Some (External 7)), WeakFromShared 0, DestroyShared 0,
        LockWeak 0, CopyShared 1] (init :: nat world)))
     = [OperatorNew 0, ZeroShared 0, InvokeDeleter DefaultDeleter (Some (External 7)),
        DestroyDeleter 0]
   \<and> use_count_cb 0 (mem (run [NewShared True (Some (External 7)), WeakFromShared 0,
        DestroyShared 0, LockWeak 0, CopyShared 1] (init :: nat world))) = 1
   \<and> expired \<lparr>element_ptr = Some (External 7), control_ptr = Some 0\<rparr>
       (mem (run [NewShared True (Some (External 7)), WeakFromShared 0, DestroyShared 0,
          LockWeak 0, CopyShared 1] (init :: nat world))) = False"
  by code_simp

text \<open>
  C8. Assigning an owning handle to itself should change nothing and run no hook. For
  the handle that \<^verbatim>\<open>lock\<close> returns on an expired observer, whose block has the
  strong count 0, the copy assignment keeps the handle, but the temporary takes the
  strong count to 1 and back to 0, and its destructor enters the first hook and calls the
  deleter a second time.
\<close>

theorem self_assignment_reruns_the_deleter:
  "live_shared (run [NewShared True (Some (External 7)), WeakFromShared 0, DestroyShared 0,
      LockWeak 0] (init :: nat world)) 1
     = Some \<lparr>element_ptr = Some (External 7), control_ptr = Some 0\<rparr>
   \<and> trace (mem (run [NewShared True (Some (External 7)), WeakFromShared 0, DestroyShared 0,
      LockWeak 0] (init :: nat world)))
     = [OperatorNew 0, ZeroShared 0, InvokeDeleter DefaultDeleter (Some (External 7)),
        DestroyDeleter 0]
   \<and> live_shared (assign_shared 1 1 (run [NewShared True (Some (External 7)), WeakFromShared 0,
      DestroyShared 0, LockWeak 0] (init :: nat world))) 1
     = Some \<lparr>element_ptr = Some (External 7), control_ptr = Some 0\<rparr>
   \<and> trace (mem (assign_shared 1 1 (run [NewShared True (Some (External 7)), WeakFromShared 0,
      DestroyShared 0, LockWeak 0] (init :: nat world))))
     = [OperatorNew 0, ZeroShared 0, InvokeDeleter DefaultDeleter (Some (External 7)),
        DestroyDeleter 0, ZeroShared 0, InvokeDeleter DefaultDeleter (Some (External 7)),
        DestroyDeleter 0]
   \<and> destroyed 0 (assign_shared 1 1 (run [NewShared True (Some (External 7)), WeakFromShared 0,
      DestroyShared 0, LockWeak 0] (init :: nat world))) = 2"
  by code_simp



text \<open>
  C10. A default-constructed handle and one constructed from \<^verbatim>\<open>nullptr\<close> hold two
  null pointers; constructing one leaves the store as it is; \<^verbatim>\<open>get()\<close> is null,
  \<^verbatim>\<open>use_count()\<close> is 0, and the destructor leaves the store and the log as they
  are.
\<close>

theorem empty_handle_is_inert:
  "SharedPtr_default = \<lparr>element_ptr = None, control_ptr = None\<rparr>
   \<and> SharedPtr_nullptr = \<lparr>element_ptr = None, control_ptr = None\<rparr>
   \<and> mem (default_shared w) = mem w
   \<and> get SharedPtr_default = None \<and> get SharedPtr_nullptr = None
   \<and> use_count SharedPtr_default m = 0 \<and> use_count SharedPtr_nullptr m = 0
   \<and> snd (SharedPtr_dtor SharedPtr_default m) = m
   \<and> snd (SharedPtr_dtor SharedPtr_nullptr m) = m"
  by (simp add: SharedPtr_default_def SharedPtr_nullptr_def default_shared_def get_def
      use_count_def SharedPtr_dtor_def)

end
